theory Spec2Isabelle
  imports
    Complex_Main
    "HOL-Library.Word"
    "HOL-Library.Signed_Division"
    "HOL-Library.Char_ord"
    "HOL-Library.List_Lexorder"
    "HOL-Library.Multiset"
    "HOL-Library.Log_Nat"
begin

section \<open>Scalars, products and the keyed containers\<close>

text \<open>
  C++ \<open>long\<close> is a 64-bit two's complement integer: a \<open>64 word\<close>, whose \<open>+\<close>, \<open>-\<close>
  and \<open>*\<close> wrap around. A finite \<open>double\<close> is modelled by the rational number it
  denotes, so comparisons and named constants are exact. The result of an arithmetic
  operation on doubles is the exact result rounded to a double, which may be an
  infinity: see \<open>round_double\<close> below. NaN has no counterpart; no operation modelled
  here produces it from finite operands.
\<close>

type_synonym long = "64 word"
type_synonym double = rat

text \<open>\<open>numeric_limits<double>::max()\<close>; \<open>lowest()\<close> is its negation.\<close>

definition DBL_MAX :: double where
  "DBL_MAX = 2 ^ 1024 - 2 ^ 971"

definition DBL_LOWEST :: double where
  "DBL_LOWEST = - DBL_MAX"

subsection \<open>Rounding to \<open>double\<close>\<close>

text \<open>
  \<open>double\<close> is IEEE 754 binary64 and the rounding mode is the default one: an exact
  result is replaced by the nearest representable number, a tie by the one whose
  significand is even, and a result that rounds beyond \<open>DBL_MAX\<close> by an infinity.

  \<open>pow2 e\<close> is two to the power of the integer \<open>e\<close>. For \<open>0 < a\<close>, \<open>ilog2 a\<close> is the
  integer \<open>k\<close> with \<open>pow2 k \<le> a < pow2 (k + 1)\<close>, found from the bit lengths of
  numerator and denominator.
  \<open>ulp_exp x\<close> is the exponent of the spacing of the doubles around \<open>x\<close>: 52 below the
  exponent of \<open>x\<close>, and never below -1074, the spacing of the subnormal numbers.
  \<open>round_finite x\<close> is the multiple of that spacing nearest to \<open>x\<close>.
\<close>

definition pow2 :: "int \<Rightarrow> rat" where
  "pow2 e = (if 0 \<le> e then 2 ^ nat e else 1 / 2 ^ nat (- e))"

definition ilog2 :: "rat \<Rightarrow> int" where
  "ilog2 a = (case quotient_of a of (p, q) \<Rightarrow>
                (let k = bitlen p - bitlen q in if pow2 k \<le> a then k else k - 1))"

definition round_half_even :: "rat \<Rightarrow> int" where
  "round_half_even y =
     (let f = \<lfloor>y\<rfloor>; d = y - of_int f
      in if d < 1 / 2 then f else if 1 / 2 < d then f + 1 else if even f then f else f + 1)"

definition ulp_exp :: "rat \<Rightarrow> int" where
  "ulp_exp x = max (ilog2 \<bar>x\<bar> - 52) (- 1074)"

definition round_finite :: "rat \<Rightarrow> rat" where
  "round_finite x =
     (if x = 0 then 0
      else of_int (round_half_even (x / pow2 (ulp_exp x))) * pow2 (ulp_exp x))"

text \<open>A \<open>double\<close> result: a finite number or an infinity.\<close>

datatype xdouble = Fin double | PInf | NInf

definition round_double :: "rat \<Rightarrow> xdouble" where
  "round_double x =
     (let r = round_finite x
      in if DBL_MAX < r then PInf else if r < - DBL_MAX then NInf else Fin r)"

text \<open>The rationals that are values of finite doubles: those that rounding leaves alone.\<close>

definition is_double :: "rat \<Rightarrow> bool" where
  "is_double x = (round_double x = Fin x)"

text \<open>
  \<open>a - b\<close>, \<open>a + b\<close> and \<open>a / b\<close> (for \<open>b\<close> other than zero) on a finite \<open>a\<close>, and the
  comparison \<open>x <= d\<close> with a finite \<open>d\<close>.
\<close>

fun dbl_sub :: "double \<Rightarrow> xdouble \<Rightarrow> xdouble" where
  "dbl_sub a (Fin b) = round_double (a - b)"
| "dbl_sub a PInf = NInf"
| "dbl_sub a NInf = PInf"

fun dbl_add :: "double \<Rightarrow> xdouble \<Rightarrow> xdouble" where
  "dbl_add a (Fin b) = round_double (a + b)"
| "dbl_add a PInf = PInf"
| "dbl_add a NInf = NInf"

definition dbl_div :: "double \<Rightarrow> double \<Rightarrow> xdouble" where
  "dbl_div a b = round_double (a / b)"





text \<open>The remainder \<open>a % b\<close> of two \<open>long\<close> values takes the sign of the dividend.\<close>

definition long_rem :: "long \<Rightarrow> long \<Rightarrow> long" where
  "long_rem a b = word_of_int (sint a smod sint b)"

subsection \<open>products.hpp\<close>

datatype ProductType = IRSWAP | BOND
datatype BondIdType = CUSIP | ISIN

text \<open>
  A \<open>Bond\<close> with the \<open>productId\<close> and \<open>productType\<close> of its \<open>Product\<close> base class.
  The maturity date is a (year, month, day) triple.
\<close>

record Bond =
  productId :: string
  productType :: ProductType
  bondIdType :: BondIdType
  ticker :: string
  coupon :: double
  maturityDate :: "int \<times> nat \<times> nat"

definition GetProductId :: "Bond \<Rightarrow> string" where
  "GetProductId b = productId b"

text \<open>
  The \<open>Bond\<close> inside a value-initialised holder (the entry that \<open>operator[]\<close> of a
  \<open>std::map\<close> creates): storage is zeroed, then \<open>Bond::Bond()\<close> runs and assigns nothing.
\<close>

definition Bond_zero :: Bond where
  "Bond_zero = \<lparr>productId = [], productType = IRSWAP, bondIdType = CUSIP,
                 ticker = [], coupon = 0, maturityDate = (0, 0, 0)\<rparr>"

subsection \<open>std::map with string keys\<close>

text \<open>
  A \<open>std::map<string, V>\<close> is the list of its entries in iteration order, that is in
  increasing key order, every key once.
\<close>

type_synonym 'v smap = "(string \<times> 'v) list"

definition map_wf :: "'v smap \<Rightarrow> bool" where
  "map_wf m = sorted_wrt (<) (map fst m)"

definition map_find :: "'v smap \<Rightarrow> string \<Rightarrow> 'v option" where
  "map_find m k = map_of m k"

text \<open>\<open>m[k] = v\<close>: overwrite the entry of \<open>k\<close>, or insert one at its place in key order.\<close>

fun map_assign :: "string \<Rightarrow> 'v \<Rightarrow> 'v smap \<Rightarrow> 'v smap" where
  "map_assign k v [] = [(k, v)]"
| "map_assign k v (e # es) =
     (if fst e = k then (k, v) # es
      else if k < fst e then (k, v) # e # es
      else e # map_assign k v es)"

text \<open>
  \<open>m[k]\<close> read as a value: the stored value, or a value-initialised one that is
  inserted under \<open>k\<close> first. The second component is the map afterwards.
\<close>

definition map_index :: "'v \<Rightarrow> 'v smap \<Rightarrow> string \<Rightarrow> 'v \<times> 'v smap" where
  "map_index dflt m k =
     (case map_find m k of
        Some v \<Rightarrow> (v, m)
      | None \<Rightarrow> (dflt, map_assign k dflt m))"

subsection \<open>Listeners\<close>

text \<open>
  A registered \<open>ServiceListener\<close> is identified by a number. A service call returns
  the \<open>ProcessAdd\<close> calls it made, in order, each as the listener and the value passed.
\<close>

type_synonym listener = nat

definition notify_all :: "listener list \<Rightarrow> 'v \<Rightarrow> (listener \<times> 'v) list" where
  "notify_all ls v = map (\<lambda>l. (l, v)) ls"

subsection \<open>GenerateUniqueId of funcs.hpp\<close>



section \<open>marketdataservice.hpp\<close>

datatype PricingSide = BID | OFFER

record Order =
  o_price :: double
  o_quantity :: long
  o_side :: PricingSide

record BidOffer =
  bidOrder :: Order
  offerOrder :: Order

record OrderBook =
  ob_product :: Bond
  bidStack :: "Order list"
  offerStack :: "Order list"

text \<open>
  The two scans of \<open>OrderBook::GetBestBidOffer\<close>. The accumulator is the pair of the
  best price so far and the best order so far.
\<close>

fun bestBidScan :: "double \<times> Order \<Rightarrow> Order list \<Rightarrow> double \<times> Order" where
  "bestBidScan acc [] = acc"
| "bestBidScan (bestBidPrice, bestBid) (b # bs) =
     (let px = o_price b in
      if px > bestBidPrice then bestBidScan (px, b) bs
      else bestBidScan (bestBidPrice, bestBid) bs)"

fun bestOfferScan :: "double \<times> Order \<Rightarrow> Order list \<Rightarrow> double \<times> Order" where
  "bestOfferScan acc [] = acc"
| "bestOfferScan (bestOfferPrice, bestOffer) (o1 # os) =
     (let px = o_price o1 in
      if px < bestOfferPrice then bestOfferScan (px, o1) os
      else bestOfferScan (bestOfferPrice, bestOffer) os)"

text \<open>
  \<open>Order bestBid;\<close> and \<open>Order bestOffer;\<close> are default-initialised locals: their
  members hold whatever the storage held. That content of the two locals is the
  argument \<open>junk\<close>.
\<close>

definition GetBestBidOffer :: "BidOffer \<Rightarrow> OrderBook \<Rightarrow> BidOffer" where
  "GetBestBidOffer junk book =
     (let bestBid = snd (bestBidScan (DBL_LOWEST, bidOrder junk) (bidStack book));
          bestOffer = snd (bestOfferScan (DBL_MAX, offerOrder junk) (offerStack book))
      in \<lparr>bidOrder = bestBid, offerOrder = bestOffer\<rparr>)"

text \<open>The first order of a stack that carries a given price.\<close>

definition first_at_price :: "double \<Rightarrow> Order list \<Rightarrow> Order option" where
  "first_at_price p xs = find (\<lambda>x. o_price x = p) xs"


text \<open>
  \<open>BondMarketDataService\<close>: the order books by product id, the listeners and the
  book depth. Value-initialisation of an \<open>OrderBook\<close> gives empty stacks.
\<close>

record BondMarketDataService =
  orderBooks :: "OrderBook smap"
  md_listeners :: "listener list"
  bookDepth :: int

definition BondMarketDataService_new :: BondMarketDataService where
  "BondMarketDataService_new = \<lparr>orderBooks = [], md_listeners = [], bookDepth = 5\<rparr>"

definition OrderBook_zero :: OrderBook where
  "OrderBook_zero = \<lparr>ob_product = Bond_zero, bidStack = [], offerStack = []\<rparr>"

definition MarketData_GetData ::
  "BondMarketDataService \<Rightarrow> string \<Rightarrow> OrderBook \<times> BondMarketDataService" where
  "MarketData_GetData s key =
     (let (v, m) = map_index OrderBook_zero (orderBooks s) key
      in (v, s\<lparr>orderBooks := m\<rparr>))"

definition MarketData_OnMessage ::
  "BondMarketDataService \<Rightarrow> OrderBook
     \<Rightarrow> BondMarketDataService \<times> (listener \<times> OrderBook) list" where
  "MarketData_OnMessage s d =
     (s\<lparr>orderBooks := map_assign (GetProductId (ob_product d)) d (orderBooks s)\<rparr>,
      notify_all (md_listeners s) d)"

text \<open>
  The lambda \<open>aggregateStack\<close> of \<open>AggregateDepth\<close>. The \<open>unordered_map<double, long>\<close>
  is the list of its entries; \<open>priceQuantityMap[p] += q\<close> adds to the entry of \<open>p\<close> or
  creates it from zero.
\<close>

fun umap_add :: "double \<Rightarrow> long \<Rightarrow> (double \<times> long) list \<Rightarrow> (double \<times> long) list" where
  "umap_add p q [] = [(p, 0 + q)]"
| "umap_add p q (e # es) =
     (if fst e = p then (p, snd e + q) # es else e # umap_add p q es)"

definition priceQuantityMap :: "Order list \<Rightarrow> (double \<times> long) list" where
  "priceQuantityMap stack =
     foldl (\<lambda>m order. umap_add (o_price order) (o_quantity order) m) [] stack"

text \<open>
  The order in which an \<open>unordered_map\<close> enumerates its entries is not specified by
  the language. It is the argument \<open>enum\<close>, which rearranges the entries.
\<close>

definition aggregateStack ::
  "((double \<times> long) list \<Rightarrow> (double \<times> long) list) \<Rightarrow> Order list \<Rightarrow> PricingSide \<Rightarrow> Order list" where
  "aggregateStack enum stack sd =
     map (\<lambda>(p, q). \<lparr>o_price = p, o_quantity = q, o_side = sd\<rparr>)
       (enum (priceQuantityMap stack))"

definition AggregateDepth ::
  "((double \<times> long) list \<Rightarrow> (double \<times> long) list) \<Rightarrow> BondMarketDataService \<Rightarrow> string
     \<Rightarrow> OrderBook \<times> BondMarketDataService" where
  "AggregateDepth enum s pid =
     (let (b1, m1) = map_index OrderBook_zero (orderBooks s) pid;
          (b2, m2) = map_index OrderBook_zero m1 pid;
          aggregatedBidStack = aggregateStack enum (bidStack b1) BID;
          aggregatedOfferStack = aggregateStack enum (offerStack b2) OFFER;
          (b3, m3) = map_index OrderBook_zero m2 pid
      in (\<lparr>ob_product = ob_product b3, bidStack = aggregatedBidStack,
            offerStack = aggregatedOfferStack\<rparr>,
          s\<lparr>orderBooks := m3\<rparr>))"

text \<open>The sum of the quantities of the orders of a stack at one price.\<close>

definition quantity_at :: "double \<Rightarrow> Order list \<Rightarrow> long" where
  "quantity_at p stack = sum_list (map o_quantity (filter (\<lambda>x. o_price x = p) stack))"

section \<open>algoexecutionservice.hpp\<close>

datatype OrderType = FOK | IOC | MARKET | LIMIT | STOP
















section \<open>pricingservice.hpp and algostreamingservice.hpp\<close>

record Price =
  p_product :: Bond
  mid :: double
  bidOfferSpread :: double

definition Price_zero :: Price where
  "Price_zero = \<lparr>p_product = Bond_zero, mid = 0, bidOfferSpread = 0\<rparr>"

record PricingService =
  priceData :: "Price smap"
  pr_listeners :: "listener list"

definition PricingService_new :: PricingService where
  "PricingService_new = \<lparr>priceData = [], pr_listeners = []\<rparr>"

definition Pricing_GetData :: "PricingService \<Rightarrow> string \<Rightarrow> Price \<times> PricingService" where
  "Pricing_GetData s key =
     (let (v, m) = map_index Price_zero (priceData s) key
      in (v, s\<lparr>priceData := m\<rparr>))"

definition Pricing_OnMessage ::
  "PricingService \<Rightarrow> Price \<Rightarrow> PricingService \<times> (listener \<times> Price) list" where
  "Pricing_OnMessage s d =
     (s\<lparr>priceData := map_assign (GetProductId (p_product d)) d (priceData s)\<rparr>,
      notify_all (pr_listeners s) d)"

text \<open>The price of a \<open>PriceStreamOrder\<close> is a computed \<open>double\<close>.\<close>

record PriceStreamOrder =
  pso_price :: xdouble
  pso_visibleQuantity :: long
  pso_hiddenQuantity :: long
  pso_side :: PricingSide

record PriceStream =
  ps_product :: Bond
  ps_bidOrder :: PriceStreamOrder
  ps_offerOrder :: PriceStreamOrder

text \<open>An \<open>AlgoStream\<close> holds a pointer to a \<open>PriceStream\<close> allocated by its constructor.\<close>

record AlgoStream =
  priceStream :: "PriceStream option"

definition AlgoStream_new :: "Bond \<Rightarrow> PriceStreamOrder \<Rightarrow> PriceStreamOrder \<Rightarrow> AlgoStream" where
  "AlgoStream_new bnd b1 o1 =
     \<lparr>priceStream = Some \<lparr>ps_product = bnd, ps_bidOrder = b1, ps_offerOrder = o1\<rparr>\<rparr>"

record AlgoStreamingService =
  orderCounter :: long
  algoStreamMap :: "AlgoStream smap"
  as_listeners :: "listener list"

definition AlgoStreamingService_new :: AlgoStreamingService where
  "AlgoStreamingService_new = \<lparr>orderCounter = 0, algoStreamMap = [], as_listeners = []\<rparr>"

definition AlgoStreaming_AddListener :: "AlgoStreamingService \<Rightarrow> listener \<Rightarrow> AlgoStreamingService" where
  "AlgoStreaming_AddListener s l = s\<lparr>as_listeners := as_listeners s @ [l]\<rparr>"

definition PublishAlgorithmicPrice ::
  "AlgoStreamingService \<Rightarrow> Price \<Rightarrow> AlgoStreamingService \<times> (listener \<times> AlgoStream) list" where
  "PublishAlgorithmicPrice s pr =
     (let product = p_product pr;
          pid = GetProductId product;
          midPrice = mid pr;
          spread = bidOfferSpread pr;
          bidPrice = dbl_sub midPrice (dbl_div spread 2);
          offerPrice = dbl_add midPrice (dbl_div spread 2);
          visibleQty = (long_rem (orderCounter s) 2 + 1) * 10000000;
          hiddenQty = visibleQty * 2;
          bidOrd = \<lparr>pso_price = bidPrice, pso_visibleQuantity = visibleQty,
                    pso_hiddenQuantity = hiddenQty, pso_side = BID\<rparr>;
          offerOrd = \<lparr>pso_price = offerPrice, pso_visibleQuantity = visibleQty,
                      pso_hiddenQuantity = hiddenQty, pso_side = OFFER\<rparr>;
          algoStream = AlgoStream_new product bidOrd offerOrd
      in (s\<lparr>orderCounter := orderCounter s + 1,
             algoStreamMap := map_assign pid algoStream (algoStreamMap s)\<rparr>,
          notify_all (as_listeners s) algoStream))"

definition Publish_run :: "AlgoStreamingService \<Rightarrow> Price list \<Rightarrow> AlgoStreamingService" where
  "Publish_run s prs = foldl (\<lambda>s pr. fst (PublishAlgorithmicPrice s pr)) s prs"

section \<open>positionservice.hpp\<close>

text \<open>The enumeration \<open>Side\<close>, as inquiryservice.hpp declares it.\<close>

datatype Side = BUY | SELL

text \<open>
  Modelled from the spec: the class \<open>Trade\<close> of tradebookingservice.hpp, which is not
  among the sources. The spec gives a trade a product, a unique trade id, a price, a
  book, a quantity and a side that is BUY or SELL; \<open>AddTrade\<close> reads them through the
  accessors of the same names.
\<close>

record Trade =
  t_product :: Bond
  tradeId :: string
  t_price :: double
  t_book :: string
  t_quantity :: long
  t_side :: Side

record Position =
  pos_product :: Bond
  positions :: "long smap"

definition Position_new :: "Bond \<Rightarrow> Position" where
  "Position_new bnd = \<lparr>pos_product = bnd, positions = []\<rparr>"

definition Position_zero :: Position where
  "Position_zero = \<lparr>pos_product = Bond_zero, positions = []\<rparr>"

text \<open>\<open>positions[_book] += _position\<close>.\<close>

definition Position_AddPosition :: "string \<Rightarrow> long \<Rightarrow> Position \<Rightarrow> Position" where
  "Position_AddPosition bk q pos =
     (let (cur, m) = map_index 0 (positions pos) bk
      in pos\<lparr>positions := map_assign bk (cur + q) m\<rparr>)"

definition GetPosition :: "Position \<Rightarrow> string \<Rightarrow> long \<times> Position" where
  "GetPosition pos bk =
     (let (cur, m) = map_index 0 (positions pos) bk in (cur, pos\<lparr>positions := m\<rparr>))"

definition GetAggregatePosition :: "Position \<Rightarrow> long" where
  "GetAggregatePosition pos = foldl (\<lambda>aggregatePosition p. aggregatePosition + snd p) 0 (positions pos)"

record PositionService =
  ps_positions :: "Position smap"
  ps_listeners :: "listener list"

definition PositionService_new :: PositionService where
  "PositionService_new = \<lparr>ps_positions = [], ps_listeners = []\<rparr>"

definition Position_GetData :: "PositionService \<Rightarrow> string \<Rightarrow> Position \<times> PositionService" where
  "Position_GetData s key =
     (let (v, m) = map_index Position_zero (ps_positions s) key
      in (v, s\<lparr>ps_positions := m\<rparr>))"

text \<open>
  The loop of \<open>AddTrade\<close> over \<open>_positionMap\<close>: every entry of the prior position
  is added to the new one.
\<close>

definition copy_forward :: "Position \<Rightarrow> long smap \<Rightarrow> Position" where
  "copy_forward pt m = foldl (\<lambda>pt p. Position_AddPosition (fst p) (snd p) pt) pt m"

definition AddTrade ::
  "PositionService \<Rightarrow> Trade \<Rightarrow> PositionService \<times> (listener \<times> Position) list" where
  "AddTrade s trade =
     (let product = t_product trade;
          pid = GetProductId product;
          bk = t_book trade;
          qty = t_quantity trade;
          positionTo0 = Position_new product;
          positionTo1 =
            (case t_side trade of
               BUY \<Rightarrow> Position_AddPosition bk qty positionTo0
             | SELL \<Rightarrow> Position_AddPosition bk (- qty) positionTo0);
          (positionFrom, m1) = map_index Position_zero (ps_positions s) pid;
          positionMap = positions positionFrom;
          positionTo = copy_forward positionTo1 positionMap
      in (s\<lparr>ps_positions := map_assign pid positionTo m1\<rparr>,
          notify_all (ps_listeners s) positionTo))"

definition AddTrade_run :: "PositionService \<Rightarrow> Trade list \<Rightarrow> PositionService" where
  "AddTrade_run s ts = foldl (\<lambda>s t. fst (AddTrade s t)) s ts"

text \<open>
  The book map of the \<open>Position\<close> stored for a product id, empty when none is stored.
\<close>

definition stored_books :: "PositionService \<Rightarrow> string \<Rightarrow> long smap" where
  "stored_books s pid = (case map_find (ps_positions s) pid of None \<Rightarrow> [] | Some p \<Rightarrow> positions p)"

text \<open>The signed quantity of a trade: positive for a BUY, negative for a SELL.\<close>

definition signed_quantity :: "Trade \<Rightarrow> long" where
  "signed_quantity t = (case t_side t of BUY \<Rightarrow> t_quantity t | SELL \<Rightarrow> - t_quantity t)"

section \<open>riskservice.hpp and PV01Info of funcs.hpp\<close>

datatype error = invalid_argument string

text \<open>
  The table of \<open>PV01Info\<close>. Each decimal literal is written as the fraction it spells
  and stands for the double nearest to it; no arithmetic is done on these values here.
\<close>

definition pv01_map :: "(string \<times> double) list" where
  "pv01_map =
     [(''91282CLY5'', 1854 / 10000), (''91282CMB4'', 2738 / 10000),
      (''91282CMA6'', 4389 / 10000), (''91282CLZ2'', 5911 / 10000),
      (''91282CLW9'', 7910 / 10000), (''912810UF3'', 12829 / 10000),
      (''912810UE6'', 15956 / 10000)]"

definition PV01Info :: "string \<Rightarrow> error + double" where
  "PV01Info cusip =
     (case map_of pv01_map cusip of
        Some v \<Rightarrow> Inr v
      | None \<Rightarrow> Inl (invalid_argument ''Unknown CUSIP''))"

record 'p PV01 =
  pv_product :: 'p
  pv01 :: double
  pv_quantity :: long

definition PV01_zero :: "Bond PV01" where
  "PV01_zero = \<lparr>pv_product = Bond_zero, pv01 = 0, pv_quantity = 0\<rparr>"

record RiskService =
  pv01s :: "Bond PV01 smap"
  rk_listeners :: "listener list"

definition RiskService_new :: RiskService where
  "RiskService_new = \<lparr>pv01s = [], rk_listeners = []\<rparr>"

definition Risk_GetData :: "RiskService \<Rightarrow> string \<Rightarrow> Bond PV01 \<times> RiskService" where
  "Risk_GetData s key =
     (let (v, m) = map_index PV01_zero (pv01s s) key
      in (v, s\<lparr>pv01s := m\<rparr>))"

text \<open>
  \<open>RiskService::AddPosition\<close>: the outcome (the exception of \<open>PV01Info\<close>, or normal
  return), the service afterwards, and the listener calls made.
\<close>

definition AddPosition ::
  "RiskService \<Rightarrow> Position \<Rightarrow> (error + unit) \<times> RiskService \<times> (listener \<times> Bond PV01) list" where
  "AddPosition s position =
     (let product = pos_product position;
          pid = GetProductId product
      in case PV01Info pid of
           Inl e \<Rightarrow> (Inl e, s, [])
         | Inr pv01Value \<Rightarrow>
             (let qty = GetAggregatePosition position;
                  pv = \<lparr>pv_product = product, pv01 = pv01Value, pv_quantity = qty\<rparr>
              in (Inr (), s\<lparr>pv01s := map_assign pid pv (pv01s s)\<rparr>,
                  notify_all (rk_listeners s) pv)))"

text \<open>
  \<open>GetBucketedRisk\<close> has no definition here. It is declared a \<open>const\<close> member and
  reads \<open>pv01s[_pId]\<close>, but \<open>std::map::operator[]\<close> is not a \<open>const\<close> member, so the
  body is ill-formed and the program compiles only because the member template is
  never instantiated; it also returns a reference to a temporary object.
\<close>


section \<open>ParsePrice and FormatPrice of funcs.hpp\<close>

definition is_digit :: "char \<Rightarrow> bool" where
  "is_digit c = (CHR ''0'' \<le> c \<and> c \<le> CHR ''9'')"

definition digit_val :: "char \<Rightarrow> nat" where
  "digit_val c = of_char c - 48"

definition digit_char :: "nat \<Rightarrow> char" where
  "digit_char d = char_of (48 + d)"

definition digits_value :: "string \<Rightarrow> nat" where
  "digits_value s = foldl (\<lambda>a c. 10 * a + digit_val c) 0 s"

text \<open>
  \<open>std::stod\<close> on a non-empty string of decimal digits: the double nearest to the
  number written, and the exception \<open>out_of_range\<close> (\<open>None\<close>) when that is infinite.
  Any other string is \<open>None\<close> as well: there \<open>stod\<close> throws or reads a floating-point
  syntax that this development does not cover.
\<close>

definition stod :: "string \<Rightarrow> double option" where
  "stod s =
     (if s \<noteq> [] \<and> list_all is_digit s
      then (case round_double (of_nat (digits_value s)) of Fin r \<Rightarrow> Some r | _ \<Rightarrow> None)
      else None)"

text \<open>
  One round of the loop of \<open>ParsePrice\<close> on the state
  \<open>(partWhole, part32, part8, dashCount)\<close>. The function itself returns the \<open>double\<close>
  sum \<open>wholeVal + val32 / 32.0 + val8 / 256.0\<close>, taken from left to right; a sum that is
  infinite has no counterpart in the result type and is \<open>None\<close>.
\<close>

definition parse_char :: "string \<times> string \<times> string \<times> int \<Rightarrow> char \<Rightarrow> string \<times> string \<times> string \<times> int" where
  "parse_char st ch =
     (case st of (partWhole, part32, part8, dashCount) \<Rightarrow>
        if ch = CHR ''-'' then (partWhole, part32, part8, dashCount + 1)
        else if dashCount = 0 then (partWhole @ [ch], part32, part8, dashCount)
        else if dashCount > 0 \<and> dashCount < 3 then (partWhole, part32 @ [ch], part8, dashCount + 1)
        else if dashCount = 3
          then (partWhole, part32, part8 @ [if ch = CHR ''+'' then CHR ''4'' else ch], dashCount)
        else st)"

definition ParsePrice :: "string \<Rightarrow> double option" where
  "ParsePrice inputPrice =
     (case foldl parse_char ([], [], [], 0) inputPrice of
        (partWhole, part32, part8, dashCount) \<Rightarrow>
          (case (if partWhole = [] then Some 0 else stod partWhole) of
             None \<Rightarrow> None
           | Some wholeVal \<Rightarrow>
               (case (if part32 = [] then Some 0 else stod part32) of
                  None \<Rightarrow> None
                | Some val32 \<Rightarrow>
                    (case (if part8 = [] then Some 0 else stod part8) of
                       None \<Rightarrow> None
                     | Some val8 \<Rightarrow>
                         (case dbl_add wholeVal (dbl_div val32 32) of
                            Fin sum32 \<Rightarrow>
                              (case dbl_add sum32 (dbl_div val8 256) of
                                 Fin r \<Rightarrow> Some r
                               | _ \<Rightarrow> None)
                          | _ \<Rightarrow> None)))))"

text \<open>Decimal output of an \<open>int\<close>, as \<open>operator<<\<close> and \<open>std::to_string\<close> print it.\<close>

fun nat_to_string :: "nat \<Rightarrow> string" where
  "nat_to_string n =
     (if n < 10 then [digit_char n] else nat_to_string (n div 10) @ [digit_char (n mod 10)])"

definition int_to_string :: "int \<Rightarrow> string" where
  "int_to_string i = (if i < 0 then CHR ''-'' # nat_to_string (nat (- i)) else nat_to_string (nat i))"

text \<open>
  \<open>static_cast<int>\<close> of an integral \<open>double\<close>: defined only inside the range of a
  32-bit \<open>int\<close>. In \<open>FormatPrice\<close> the floor of a double is exact, and the difference
  and the product are rounded; neither can be infinite once the floor of the price is
  an \<open>int\<close>.
\<close>

definition to_int32 :: "int \<Rightarrow> int option" where
  "to_int32 i = (if - (2 ^ 31) \<le> i \<and> i < 2 ^ 31 then Some i else None)"

definition FormatPrice :: "double \<Rightarrow> string option" where
  "FormatPrice price =
     (case to_int32 \<lfloor>price\<rfloor> of
        None \<Rightarrow> None
      | Some integerPart \<Rightarrow>
          (let fraction = round_finite (price - of_int integerPart)
           in case to_int32 \<lfloor>round_finite (fraction * 256)\<rfloor> of
                None \<Rightarrow> None
              | Some fraction256 \<Rightarrow>
                  (let fraction32 = fraction256 sdiv 8;
                       fraction8 = fraction256 smod 8;
                       oss32 = (if fraction32 < 10 then ''0'' else []) @ int_to_string fraction32;
                       part8 = (if fraction8 = 4 then ''+'' else int_to_string fraction8)
                   in Some (int_to_string integerPart @ ''-'' @ oss32 @ part8))))"

text \<open>
  The price string \<open>W-FFE\<close> with integer part \<open>W\<close>, 32nds \<open>FF\<close> written with two
  digits, and last character \<open>E\<close>.
\<close>

definition price_string :: "nat \<Rightarrow> nat \<Rightarrow> char \<Rightarrow> string" where
  "price_string W FF E =
     nat_to_string W @ ''-'' @ [digit_char (FF div 10), digit_char (FF mod 10)] @ [E]"

text \<open>The quantity that a book-to-quantity map holds for a book, zero when it has none.\<close>

definition book_qty :: "long smap \<Rightarrow> string \<Rightarrow> long" where
  "book_qty m b = (case map_of m b of None \<Rightarrow> 0 | Some v \<Rightarrow> v)"


declare nat_to_string.simps [simp del]

text \<open>The count of 256ths that the last character of a price string stands for.\<close>

definition eighths :: "char \<Rightarrow> nat" where
  "eighths E = (if E = CHR ''+'' then 4 else digit_val E)"

section \<open>Concrete inputs used below\<close>

text \<open>The order book of the specification's best-bid-offer example.\<close>

definition spec_book :: OrderBook where
  "spec_book =
     \<lparr>ob_product = Bond_zero,
      bidStack = [\<lparr>o_price = 199 / 2, o_quantity = 10, o_side = BID\<rparr>,
                  \<lparr>o_price = 399 / 4, o_quantity = 20, o_side = BID\<rparr>],
      offerStack = [\<lparr>o_price = 100, o_quantity = 15, o_side = OFFER\<rparr>,
                    \<lparr>o_price = 999 / 10, o_quantity = 5, o_side = OFFER\<rparr>]\<rparr>"

text \<open>A book whose only bid is priced at the lowest finite \<open>double\<close>.\<close>

definition lowest_bid_book :: OrderBook where
  "lowest_bid_book =
     \<lparr>ob_product = Bond_zero,
      bidStack = [\<lparr>o_price = DBL_LOWEST, o_quantity = 1, o_side = BID\<rparr>],
      offerStack = [\<lparr>o_price = 100, o_quantity = 1, o_side = OFFER\<rparr>]\<rparr>"

definition junk0 :: BidOffer where
  "junk0 = \<lparr>bidOrder = \<lparr>o_price = 0, o_quantity = 0, o_side = OFFER\<rparr>,
             offerOrder = \<lparr>o_price = 1, o_quantity = 7, o_side = BID\<rparr>\<rparr>"

text \<open>The two-year note of the bond table, and the depth example of the specification.\<close>

definition bond_2Y :: Bond where
  "bond_2Y = \<lparr>productId = ''91282CLY5'', productType = BOND, bondIdType = CUSIP,
               ticker = ''US2Y'', coupon = 425 / 10000, maturityDate = (2026, 11, 30)\<rparr>"

definition depth_book :: OrderBook where
  "depth_book =
     \<lparr>ob_product = bond_2Y,
      bidStack = [\<lparr>o_price = 199 / 2, o_quantity = 10, o_side = BID\<rparr>,
                  \<lparr>o_price = 199 / 2, o_quantity = 5, o_side = BID\<rparr>,
                  \<lparr>o_price = 399 / 4, o_quantity = 20, o_side = BID\<rparr>],
      offerStack = [\<lparr>o_price = 100, o_quantity = 15, o_side = OFFER\<rparr>]\<rparr>"

definition depth_service :: BondMarketDataService where
  "depth_service = fst (MarketData_OnMessage BondMarketDataService_new depth_book)"

text \<open>
  Two books of different products whose best prices are exactly 1/128 apart, a book
  one 256th wider, and an execution service with one listener.
\<close>

definition bond_3Y :: Bond where
  "bond_3Y = \<lparr>productId = ''91282CMB4'', productType = BOND, bondIdType = CUSIP,
               ticker = ''US3Y'', coupon = 4 / 100, maturityDate = (2027, 12, 15)\<rparr>"











text \<open>A streaming service with one listener, and two prices.\<close>

definition stream_service0 :: AlgoStreamingService where
  "stream_service0 = AlgoStreaming_AddListener AlgoStreamingService_new 3"

definition price_a :: Price where
  "price_a = \<lparr>p_product = bond_2Y, mid = 100, bidOfferSpread = 1 / 64\<rparr>"

definition price_b :: Price where
  "price_b = \<lparr>p_product = bond_3Y, mid = 199 / 2, bidOfferSpread = 1 / 128\<rparr>"

text \<open>A price whose mid is so large that half the spread is below half its spacing.\<close>

definition price_big :: Price where
  "price_big = \<lparr>p_product = bond_2Y, mid = 10 ^ 16, bidOfferSpread = 1\<rparr>"


text \<open>Three trades of one product, and a position service with one listener.\<close>

definition trades1 :: "Trade list" where
  "trades1 =
     [\<lparr>t_product = bond_2Y, tradeId = ''T1'', t_price = 99, t_book = ''TRSY2'', t_quantity = 1000000, t_side = BUY\<rparr>,
      \<lparr>t_product = bond_2Y, tradeId = ''T2'', t_price = 100, t_book = ''TRSY1'', t_quantity = 2000000, t_side = SELL\<rparr>,
      \<lparr>t_product = bond_2Y, tradeId = ''T3'', t_price = 99, t_book = ''TRSY2'', t_quantity = 3000000, t_side = BUY\<rparr>]"


definition pos_service0 :: PositionService where
  "pos_service0 = PositionService_new\<lparr>ps_listeners := [1]\<rparr>"

definition trade4 :: Trade where
  "trade4 = \<lparr>t_product = bond_2Y, tradeId = ''T4'', t_price = 99, t_book = ''TRSY2'',
             t_quantity = 500000, t_side = SELL\<rparr>"

text \<open>
  A position in a product that the PV01 table does not know, and a risk service that
  holds one entry.
\<close>

definition bond_unknown :: Bond where
  "bond_unknown = \<lparr>productId = ''000000AA0'', productType = BOND, bondIdType = CUSIP,
                    ticker = ''NONE'', coupon = 0, maturityDate = (2030, 1, 1)\<rparr>"

definition position_unknown :: Position where
  "position_unknown = \<lparr>pos_product = bond_unknown, positions = [(''TRSY1'', 1000000)]\<rparr>"

definition position_2Y :: Position where
  "position_2Y = \<lparr>pos_product = bond_2Y, positions = [(''TRSY1'', - 2000000), (''TRSY2'', 4000000)]\<rparr>"

definition risk_service0 :: RiskService where
  "risk_service0 = RiskService_new\<lparr>rk_listeners := [5]\<rparr>"

definition risk_service1 :: RiskService where
  "risk_service1 = fst (snd (AddPosition risk_service0 position_2Y))"

section \<open>Facts about the keyed containers\<close>

lemma map_of_map_assign: "map_of (map_assign k v m) = (map_of m)(k \<mapsto> v)"
  by (induction m) (auto simp: fun_eq_iff)

lemma map_find_map_assign:
  "map_find (map_assign k v m) k' = (if k' = k then Some v else map_find m k')"
  by (simp add: map_find_def map_of_map_assign)

lemma map_index_hit: "map_find m k = Some v \<Longrightarrow> map_index d m k = (v, m)"
  by (simp add: map_index_def)

lemma map_index_miss: "map_find m k = None \<Longrightarrow> map_index d m k = (d, map_assign k d m)"
  by (simp add: map_index_def)

lemma map_assign_keys: "fst ` set (map_assign k v m) = insert k (fst ` set m)"
  by (induction m) auto

lemma map_wf_Cons: "map_wf (e # es) \<longleftrightarrow> (\<forall>x\<in>set es. fst e < fst x) \<and> map_wf es"
  by (auto simp: map_wf_def)

lemma map_wf_map_assign: "map_wf m \<Longrightarrow> map_wf (map_assign k v m)"
proof (induction m)
  case Nil
  show ?case by (simp add: map_wf_def)
next
  case (Cons e es)
  have keys: "\<And>x. x \<in> set (map_assign k v es) \<Longrightarrow> fst x = k \<or> fst x \<in> fst ` set es"
    using map_assign_keys [of k v es] by (metis imageI insertE)
  from Cons show ?case
    by (auto simp: map_wf_Cons dest!: keys)
qed

lemma map_wf_below: "map_wf (e # es) \<Longrightarrow> k < fst e \<Longrightarrow> map_of (e # es) k = None"
  by (auto simp: map_wf_Cons map_of_eq_None_iff image_iff)

lemma map_wf_distinct: "map_wf m \<Longrightarrow> distinct (map fst m)"
  by (induction m) (auto simp: map_wf_Cons image_iff)

lemma map_assign_sum:
  fixes m :: "long smap"
  assumes "map_wf m"
  shows "sum_list (map snd (map_assign k v m)) =
           sum_list (map snd m) + v - (case map_of m k of None \<Rightarrow> 0 | Some old \<Rightarrow> old)"
  using assms
proof (induction m)
  case Nil
  show ?case by simp
next
  case (Cons e es)
  show ?case
  proof (cases "fst e = k")
    case True
    then show ?thesis by (cases e) simp
  next
    case False
    show ?thesis
    proof (cases "k < fst e")
      case True
      with map_wf_below [OF Cons.prems True] False show ?thesis by simp
    next
      case nl: False
      from Cons.prems have "map_wf es" by (simp add: map_wf_Cons)
      from Cons.IH [OF this] False nl show ?thesis by (cases e) simp
    qed
  qed
qed

lemma aggregate_sum_list: "GetAggregatePosition pos = sum_list (map snd (positions pos))"
proof -
  have "foldl (\<lambda>a p. a + snd p) a m = a + sum_list (map snd m)" for a :: long and m :: "long smap"
    by (induction m arbitrary: a) (simp_all add: add.assoc)
  then show ?thesis by (simp add: GetAggregatePosition_def)
qed


section \<open>Facts about rounding\<close>



lemma pow2_powi: "pow2 e = 2 powi e"
  by (simp add: pow2_def power_int_def power_inverse [symmetric] inverse_eq_divide power_one_over)

lemma pow2_pos: "0 < pow2 e"
  by (simp add: pow2_powi zero_less_power_int)

lemma pow2_add: "pow2 (a + b) = pow2 a * pow2 b"
  by (simp add: pow2_powi power_int_add)

lemma pow2_nonneg_exp: "0 \<le> d \<Longrightarrow> pow2 d = of_int (2 ^ nat d)"
  by (simp add: pow2_def)

lemma pow2_mono: "a \<le> b \<Longrightarrow> pow2 a \<le> pow2 b"
  by (simp add: pow2_powi power_int_increasing)

lemma pow2_strict_mono: "a < b \<Longrightarrow> pow2 a < pow2 b"
  by (simp add: pow2_powi power_int_strict_increasing)

lemma round_half_even_of_int: "round_half_even (of_int j) = j"
  by (simp add: round_half_even_def)

lemma ilog2_lower:
  assumes "0 < a"
  shows "pow2 (ilog2 a) \<le> a"
proof -
  obtain p q where pq: "quotient_of a = (p, q)"
    by (cases "quotient_of a")
  have q: "0 < q"
    using pq by (rule quotient_of_denom_pos)
  have a: "a = of_int p / of_int q"
    using pq by (rule quotient_of_div)
  have p: "0 < p"
    using assms q unfolding a by (simp add: zero_less_divide_iff)
  have bp: "2 ^ nat (bitlen p - 1) \<le> p"
    using bitlen_bounds [OF p] by simp
  have bq: "q < 2 ^ nat (bitlen q)"
    using bitlen_bounds [OF q] by simp
  have bp1: "1 \<le> bitlen p"
    using p bitlen_le_iff_power [of p 0] by (simp add: not_le [symmetric])
  have bq0: "0 \<le> bitlen q"
    by (rule bitlen_nonneg)
  have Pp: "pow2 (bitlen p - 1) \<le> of_int p"
  proof -
    have "pow2 (bitlen p - 1) = of_int (2 ^ nat (bitlen p - 1))"
      using bp1 by (simp add: pow2_nonneg_exp)
    also have "\<dots> \<le> of_int p"
      using bp by (simp only: of_int_le_iff)
    finally show ?thesis .
  qed
  have Pq: "of_int q \<le> pow2 (bitlen q)"
  proof -
    have "(of_int q :: rat) \<le> of_int (2 ^ nat (bitlen q))"
      using bq by (simp only: of_int_le_iff less_imp_le)
    also have "\<dots> = pow2 (bitlen q)"
      using bq0 by (simp add: pow2_nonneg_exp)
    finally show ?thesis .
  qed
  have low: "pow2 (bitlen p - bitlen q - 1) \<le> a"
  proof -
    have "pow2 (bitlen p - bitlen q - 1) * pow2 (bitlen q) = pow2 (bitlen p - 1)"
      by (simp add: pow2_add [symmetric])
    hence "pow2 (bitlen p - bitlen q - 1) = pow2 (bitlen p - 1) / pow2 (bitlen q)"
      using pow2_pos [of "bitlen q"] by (simp add: field_simps)
    also have "\<dots> \<le> of_int p / pow2 (bitlen q)"
      using Pp pow2_pos [of "bitlen q"] by (simp add: divide_right_mono)
    also have "\<dots> \<le> of_int p / of_int q"
      using Pq p q by (simp add: divide_left_mono)
    finally show ?thesis
      unfolding a .
  qed
  show ?thesis
    using low by (simp add: ilog2_def pq Let_def)
qed

lemma ilog2_less:
  assumes "0 < a" and "a < pow2 n"
  shows "ilog2 a < n"
proof (rule ccontr)
  assume "\<not> ilog2 a < n"
  hence "pow2 n \<le> pow2 (ilog2 a)"
    by (simp add: pow2_mono)
  thus False
    using ilog2_lower [OF assms(1)] assms(2) by simp
qed

lemma round_finite_dyadic:
  assumes m: "\<bar>m\<bar> < 2 ^ 53" and e: "- 1074 \<le> e"
  shows "round_finite (of_int m * pow2 e) = of_int m * pow2 e"
proof (cases "m = 0")
  case True
  thus ?thesis
    by (simp add: round_finite_def)
next
  case False
  let ?x = "of_int m * pow2 e :: rat"
  have x0: "?x \<noteq> 0"
    using False pow2_pos [of e] by simp
  have ax: "\<bar>?x\<bar> = of_int \<bar>m\<bar> * pow2 e"
    using pow2_pos [of e] by (simp add: abs_mult)
  have "of_int \<bar>m\<bar> < (of_int (2 ^ 53) :: rat)"
    using m by (simp only: of_int_less_iff)
  hence "\<bar>?x\<bar> < of_int (2 ^ 53) * pow2 e"
    unfolding ax using pow2_pos [of e] by (simp only: mult_strict_right_mono)
  also have "of_int (2 ^ 53) * pow2 e = pow2 (53 + e)"
    by (simp add: pow2_add pow2_def [of 53])
  finally have "ilog2 \<bar>?x\<bar> < 53 + e"
    using x0 by (intro ilog2_less) simp_all
  hence ue: "ulp_exp ?x \<le> e"
    using e by (simp add: ulp_exp_def)
  define d where "d = e - ulp_exp ?x"
  have d0: "0 \<le> d"
    using ue by (simp add: d_def)
  have pe: "pow2 e = of_int (2 ^ nat d) * pow2 (ulp_exp ?x)"
    using pow2_add [of d "ulp_exp ?x"] d0 by (simp add: d_def pow2_nonneg_exp)
  have "?x / pow2 (ulp_exp ?x) = of_int (m * 2 ^ nat d)"
    using pow2_pos [of "ulp_exp ?x"] by (subst pe) simp
  hence "round_half_even (?x / pow2 (ulp_exp ?x)) = m * 2 ^ nat d"
    by (simp only: round_half_even_of_int)
  hence "round_finite ?x = of_int (m * 2 ^ nat d) * pow2 (ulp_exp ?x)"
    using x0 by (simp only: round_finite_def if_False)
  also have "\<dots> = ?x"
    by (subst (2) pe) simp
  finally show ?thesis .
qed

lemma is_double_dyadic:
  assumes m: "\<bar>m\<bar> < 2 ^ 53" and e: "- 1074 \<le> e" and e': "e \<le> 971"
  shows "is_double (of_int m * pow2 e)"
proof -
  have m': "of_int \<bar>m\<bar> \<le> (of_int (2 ^ 53 - 1) :: rat)"
    using m by (simp only: of_int_le_iff)
  have "\<bar>of_int m * pow2 e :: rat\<bar> = of_int \<bar>m\<bar> * pow2 e"
    using pow2_pos [of e] by (simp add: abs_mult)
  also have "\<dots> \<le> of_int (2 ^ 53 - 1) * pow2 e"
    using m' pow2_pos [of e] by (simp only: mult_right_mono less_imp_le)
  also have "\<dots> \<le> of_int (2 ^ 53 - 1) * pow2 971"
    using pow2_mono [OF e'] by (intro mult_left_mono) simp_all
  also have "\<dots> = DBL_MAX"
    by (simp add: DBL_MAX_def pow2_def)
  finally have "\<bar>of_int m * pow2 e :: rat\<bar> \<le> DBL_MAX" .
  thus ?thesis
    by (simp add: is_double_def round_double_def round_finite_dyadic [OF m e] Let_def abs_le_iff not_less)
qed

lemma is_double_of_int:
  assumes "\<bar>i\<bar> \<le> 2 ^ 53"
  shows "is_double (of_int i)"
proof (cases "\<bar>i\<bar> < 2 ^ 53")
  case True
  thus ?thesis
    using is_double_dyadic [of i 0] by (simp add: pow2_def)
next
  case False
  hence "i = 2 ^ 53 \<or> i = - (2 ^ 53)"
    using assms by linarith
  thus ?thesis
    using is_double_dyadic [of "2 ^ 52" 1] is_double_dyadic [of "- (2 ^ 52)" 1]
    by (auto simp add: pow2_def)
qed

lemma is_double_round_finite: "is_double x \<Longrightarrow> round_finite x = x"
  by (simp add: is_double_def round_double_def Let_def split: if_splits)

lemma ilog2_upper:
  assumes "0 < a"
  shows "a < pow2 (ilog2 a + 1)"
proof -
  obtain p q where pq: "quotient_of a = (p, q)"
    by (cases "quotient_of a")
  have q: "0 < q"
    using pq by (rule quotient_of_denom_pos)
  have a: "a = of_int p / of_int q"
    using pq by (rule quotient_of_div)
  have p: "0 < p"
    using assms q unfolding a by (simp add: zero_less_divide_iff)
  have bp: "p < 2 ^ nat (bitlen p)"
    using bitlen_bounds [OF p] by simp
  have bq: "2 ^ nat (bitlen q - 1) \<le> q"
    using bitlen_bounds [OF q] by simp
  have bq1: "1 \<le> bitlen q"
    using q bitlen_le_iff_power [of q 0] by (simp add: not_le [symmetric])
  have bp0: "0 \<le> bitlen p"
    by (rule bitlen_nonneg)
  have Pp: "of_int p < pow2 (bitlen p)"
  proof -
    have "(of_int p :: rat) < of_int (2 ^ nat (bitlen p))"
      using bp by (simp only: of_int_less_iff)
    also have "\<dots> = pow2 (bitlen p)"
      using bp0 by (simp add: pow2_nonneg_exp)
    finally show ?thesis .
  qed
  have Pq: "pow2 (bitlen q - 1) \<le> of_int q"
  proof -
    have "pow2 (bitlen q - 1) = of_int (2 ^ nat (bitlen q - 1))"
      using bq1 by (simp add: pow2_nonneg_exp)
    also have "\<dots> \<le> of_int q"
      using bq by (simp only: of_int_le_iff)
    finally show ?thesis .
  qed
  have up: "a < pow2 (bitlen p - bitlen q + 1)"
  proof -
    have "of_int p / of_int q < pow2 (bitlen p) / (of_int q :: rat)"
      using Pp q by (simp add: divide_strict_right_mono)
    also have "\<dots> \<le> pow2 (bitlen p) / pow2 (bitlen q - 1)"
      using Pq pow2_pos [of "bitlen q - 1"] pow2_pos [of "bitlen p"]
      by (simp add: divide_left_mono)
    also have "\<dots> = pow2 (bitlen p - bitlen q + 1)"
    proof -
      have "pow2 (bitlen p - bitlen q + 1) * pow2 (bitlen q - 1) = pow2 (bitlen p)"
        by (simp add: pow2_add [symmetric])
      thus ?thesis
        using pow2_pos [of "bitlen q - 1"] by (simp add: field_simps)
    qed
    finally show ?thesis
      unfolding a .
  qed
  show ?thesis
  proof (cases "pow2 (bitlen p - bitlen q) \<le> a")
    case True
    thus ?thesis
      using up by (simp add: ilog2_def pq Let_def)
  next
    case False
    thus ?thesis
      by (simp add: ilog2_def pq Let_def not_le)
  qed
qed

lemma ilog2_eq:
  assumes "pow2 k \<le> a" and "a < pow2 (k + 1)"
  shows "ilog2 a = k"
proof -
  have a: "0 < a"
    using pow2_pos [of k] assms(1) by simp
  have "ilog2 a < k + 1"
    using a assms(2) by (rule ilog2_less)
  moreover have "k < ilog2 a + 1"
  proof (rule ccontr)
    assume "\<not> k < ilog2 a + 1"
    hence "pow2 (ilog2 a + 1) \<le> pow2 k"
      by (simp add: pow2_mono)
    thus False
      using ilog2_upper [OF a] assms(1) by simp
  qed
  ultimately show ?thesis
    by simp
qed

lemma round_finite_at:
  assumes "pow2 k \<le> \<bar>x\<bar>" and "\<bar>x\<bar> < pow2 (k + 1)" and "e = max (k - 52) (- 1074)"
  shows "round_finite x = of_int (round_half_even (x / pow2 e)) * pow2 e"
proof -
  have "x \<noteq> 0"
    using pow2_pos [of k] assms(1) by auto
  moreover have "ulp_exp x = e"
    unfolding ulp_exp_def ilog2_eq [OF assms(1,2)] assms(3) ..
  ultimately show ?thesis
    by (simp add: round_finite_def)
qed

lemma round_half_even_cases:
  "y - of_int f < 1 / 2 \<Longrightarrow> of_int f \<le> y \<Longrightarrow> round_half_even y = f"
  "1 / 2 < y - of_int f \<Longrightarrow> y < of_int f + 1 \<Longrightarrow> round_half_even y = f + 1"
  "y = of_int f + 1 / 2 \<Longrightarrow> round_half_even y = (if even f then f else f + 1)"
proof -
  show "y - of_int f < 1 / 2 \<Longrightarrow> of_int f \<le> y \<Longrightarrow> round_half_even y = f"
  proof -
    assume a: "y - of_int f < 1 / 2" "of_int f \<le> y"
    hence "\<lfloor>y\<rfloor> = f" by (intro floor_unique) simp_all
    thus ?thesis using a by (simp add: round_half_even_def Let_def)
  qed
  show "1 / 2 < y - of_int f \<Longrightarrow> y < of_int f + 1 \<Longrightarrow> round_half_even y = f + 1"
  proof -
    assume a: "1 / 2 < y - of_int f" "y < of_int f + 1"
    hence "\<lfloor>y\<rfloor> = f" by (intro floor_unique) simp_all
    thus ?thesis using a by (simp add: round_half_even_def Let_def)
  qed
  show "y = of_int f + 1 / 2 \<Longrightarrow> round_half_even y = (if even f then f else f + 1)"
  proof -
    assume a: "y = of_int f + 1 / 2"
    hence "\<lfloor>y\<rfloor> = f" by (intro floor_unique) simp_all
    thus ?thesis using a by (simp add: round_half_even_def Let_def)
  qed
qed

lemma round_double_finite:
  assumes "round_finite x = r" and "- DBL_MAX \<le> r" and "r \<le> DBL_MAX"
  shows "round_double x = Fin r"
  using assms by (simp add: round_double_def Let_def not_less)

lemma is_double_round_double: "is_double x \<Longrightarrow> round_double x = Fin x"
  by (simp add: is_double_def)









section \<open>Facts about the scalar conversions\<close>







lemma even_uint_long: "even (uint (w :: long)) \<longleftrightarrow> even w"
proof -
  have "bit (uint w) 0 \<longleftrightarrow> bit w 0"
    by (simp only: bit_uint_iff) simp
  then show ?thesis by (simp only: bit_0) simp
qed

lemma even_sint_long: "even (sint (w :: long)) \<longleftrightarrow> even w"
  by (simp add: sint_uint even_signed_take_bit_iff even_uint_long)





lemma long_rem_2_nonneg: "0 \<le> sint w \<Longrightarrow> long_rem w 2 = (if even w then 0 else 1)"
  using even_sint_long [of w]
  by (auto simp: long_rem_def signed_modulo_int_def sgn_if elim: oddE)

lemma sint_of_nat_long: "n < 2 ^ 63 \<Longrightarrow> sint (of_nat n :: long) = int n"
proof -
  assume a: "n < 2 ^ 63"
  then have b: "int n < 2 ^ 63"
    by (metis of_nat_less_iff of_nat_numeral of_nat_power)
  have "sint (of_nat n :: long) = signed_take_bit 63 (int n)"
    using signed_of_nat [of n, where ?'a = int and ?'b = 64] by simp
  also have "\<dots> = int n"
    using b by (intro signed_take_bit_int_eq_self) simp_all
  finally show ?thesis .
qed


section \<open>Best bid and offer\<close>

lemma bestBidScan_spec:
  "bestBidScan (bp, bb) xs = (rp, rb) \<Longrightarrow>
     (\<forall>x\<in>set xs. o_price x \<le> rp) \<and> bp \<le> rp \<and>
     (if rp = bp then rb = bb else first_at_price rp xs = Some rb)"
proof (induction xs arbitrary: bp bb)
  case Nil
  then show ?case by simp
next
  case (Cons x xs)
  show ?case
  proof (cases "o_price x > bp")
    case True
    with Cons.prems have "bestBidScan (o_price x, x) xs = (rp, rb)" by simp
    from Cons.IH [OF this] True show ?thesis
      by (auto simp: first_at_price_def)
  next
    case False
    with Cons.prems have "bestBidScan (bp, bb) xs = (rp, rb)" by simp
    from Cons.IH [OF this] False show ?thesis
      by (auto simp: first_at_price_def)
  qed
qed

lemma bestOfferScan_spec:
  "bestOfferScan (bp, bb) xs = (rp, rb) \<Longrightarrow>
     (\<forall>x\<in>set xs. rp \<le> o_price x) \<and> rp \<le> bp \<and>
     (if rp = bp then rb = bb else first_at_price rp xs = Some rb)"
proof (induction xs arbitrary: bp bb)
  case Nil
  then show ?case by simp
next
  case (Cons x xs)
  show ?case
  proof (cases "o_price x < bp")
    case True
    with Cons.prems have "bestOfferScan (o_price x, x) xs = (rp, rb)" by simp
    from Cons.IH [OF this] True show ?thesis
      by (auto simp: first_at_price_def)
  next
    case False
    with Cons.prems have "bestOfferScan (bp, bb) xs = (rp, rb)" by simp
    from Cons.IH [OF this] False show ?thesis
      by (auto simp: first_at_price_def)
  qed
qed

text \<open>
  Claim C3, as stated, at a book with non-empty stacks whose single bid is priced at
  \<open>numeric_limits<double>::lowest()\<close>: the comparison \<open>px > bestBidPrice\<close> never holds,
  so the bid returned is the default-initialised local and not an order of the bid stack.
\<close>

theorem GetBestBidOffer_lowest_counterexample:
  "bidStack lowest_bid_book \<noteq> [] \<and> offerStack lowest_bid_book \<noteq> [] \<and>
   bidOrder (GetBestBidOffer junk0 lowest_bid_book) = bidOrder junk0 \<and>
   bidOrder junk0 \<notin> set (bidStack lowest_bid_book)"
  by (simp add: GetBestBidOffer_def lowest_bid_book_def junk0_def)

text \<open>
  Claim C3, amended: for every order book whose bid stack holds a bid priced above the
  lowest finite \<open>double\<close> and whose offer stack holds an offer priced below the largest
  finite \<open>double\<close>, \<open>GetBestBidOffer\<close> returns a bid that no bid of the stack exceeds in
  price and an offer that no offer of the stack undercuts, each being the first order of
  its stack, in stack order, that carries that price.
\<close>

theorem GetBestBidOffer_best:
  assumes "\<exists>x\<in>set (bidStack book). DBL_LOWEST < o_price x"
    and "\<exists>x\<in>set (offerStack book). o_price x < DBL_MAX"
  shows "(\<forall>x\<in>set (bidStack book). o_price x \<le> o_price (bidOrder (GetBestBidOffer junk book)))
       \<and> first_at_price (o_price (bidOrder (GetBestBidOffer junk book))) (bidStack book)
           = Some (bidOrder (GetBestBidOffer junk book))
       \<and> (\<forall>x\<in>set (offerStack book). o_price (offerOrder (GetBestBidOffer junk book)) \<le> o_price x)
       \<and> first_at_price (o_price (offerOrder (GetBestBidOffer junk book))) (offerStack book)
           = Some (offerOrder (GetBestBidOffer junk book))"
proof -
  obtain rp rb where b: "bestBidScan (DBL_LOWEST, bidOrder junk) (bidStack book) = (rp, rb)"
    by (cases "bestBidScan (DBL_LOWEST, bidOrder junk) (bidStack book)")
  obtain sp sb where o: "bestOfferScan (DBL_MAX, offerOrder junk) (offerStack book) = (sp, sb)"
    by (cases "bestOfferScan (DBL_MAX, offerOrder junk) (offerStack book)")
  note B = bestBidScan_spec [OF b] and O = bestOfferScan_spec [OF o]
  from assms(1) obtain x where x: "x \<in> set (bidStack book)" "DBL_LOWEST < o_price x" by blast
  from assms(2) obtain y where y: "y \<in> set (offerStack book)" "o_price y < DBL_MAX" by blast
  from B x have "rp \<noteq> DBL_LOWEST" by force
  with B have fb: "first_at_price rp (bidStack book) = Some rb" by simp
  from O y have "sp \<noteq> DBL_MAX" by force
  with O have fo: "first_at_price sp (offerStack book) = Some sb" by simp
  from fb have rprb: "o_price rb = rp"
    by (auto simp: first_at_price_def find_Some_iff)
  from fo have spsb: "o_price sb = sp"
    by (auto simp: first_at_price_def find_Some_iff)
  have r: "bidOrder (GetBestBidOffer junk book) = rb" "offerOrder (GetBestBidOffer junk book) = sb"
    by (simp_all add: GetBestBidOffer_def b o)
  show ?thesis
    unfolding r using B O fb fo rprb spsb by simp
qed

theorem GetBestBidOffer_best_witness:
  "list_ex (\<lambda>x. DBL_LOWEST < o_price x) (bidStack spec_book)
   \<and> list_ex (\<lambda>x. o_price x < DBL_MAX) (offerStack spec_book)
   \<and> bidOrder (GetBestBidOffer junk0 spec_book) = \<lparr>o_price = 399 / 4, o_quantity = 20, o_side = BID\<rparr>
   \<and> offerOrder (GetBestBidOffer junk0 spec_book) = \<lparr>o_price = 999 / 10, o_quantity = 5, o_side = OFFER\<rparr>
   \<and> first_at_price (399 / 4) (bidStack spec_book) = Some (bidOrder (GetBestBidOffer junk0 spec_book))
   \<and> first_at_price (999 / 10) (offerStack spec_book) = Some (offerOrder (GetBestBidOffer junk0 spec_book))"
proof -
  have h1: "\<exists>x\<in>set (bidStack spec_book). DBL_LOWEST < o_price x"
    by (simp add: spec_book_def DBL_LOWEST_def DBL_MAX_def)
  have h2: "\<exists>x\<in>set (offerStack spec_book). o_price x < DBL_MAX"
    by (simp add: spec_book_def DBL_MAX_def)
  have v: "GetBestBidOffer junk0 spec_book =
      \<lparr>bidOrder = \<lparr>o_price = 399 / 4, o_quantity = 20, o_side = BID\<rparr>,
       offerOrder = \<lparr>o_price = 999 / 10, o_quantity = 5, o_side = OFFER\<rparr>\<rparr>"
    by (simp add: GetBestBidOffer_def spec_book_def DBL_MAX_def DBL_LOWEST_def Let_def junk0_def)
  from GetBestBidOffer_best [OF h1 h2, of junk0] h1 h2 v
  show ?thesis
    by (simp add: list_ex_iff)
qed

section \<open>Depth aggregation\<close>

lemma umap_add_map_of:
  "map_of (umap_add p q m) = (map_of m)(p \<mapsto> (case map_of m p of None \<Rightarrow> 0 | Some v \<Rightarrow> v) + q)"
  by (induction m) (auto simp: fun_eq_iff)

lemma umap_add_keys: "fst ` set (umap_add p q m) = insert p (fst ` set m)"
  by (induction m) auto

lemma umap_add_distinct: "distinct (map fst m) \<Longrightarrow> distinct (map fst (umap_add p q m))"
proof (induction m)
  case Nil
  then show ?case by simp
next
  case (Cons e es)
  have "fst ` set (umap_add p q es) = insert p (fst ` set es)" by (rule umap_add_keys)
  with Cons show ?case by (auto simp del: umap_add.simps(2) simp: umap_add.simps(2) [of p q e es])
qed

lemma priceQuantityMap_snoc:
  "priceQuantityMap (xs @ [x]) = umap_add (o_price x) (o_quantity x) (priceQuantityMap xs)"
  by (simp add: priceQuantityMap_def)

lemma quantity_at_snoc:
  "quantity_at p (xs @ [x]) = quantity_at p xs + (if o_price x = p then o_quantity x else 0)"
  by (simp add: quantity_at_def)

lemma priceQuantityMap_distinct: "distinct (map fst (priceQuantityMap xs))"
proof (induction xs rule: rev_induct)
  case Nil
  show ?case by (simp add: priceQuantityMap_def)
next
  case (snoc x xs)
  then show ?case by (simp add: priceQuantityMap_snoc umap_add_distinct)
qed

lemma priceQuantityMap_map_of:
  "map_of (priceQuantityMap xs) p =
     (if p \<in> o_price ` set xs then Some (quantity_at p xs) else None)"
proof (induction xs rule: rev_induct)
  case Nil
  show ?case by (simp add: priceQuantityMap_def)
next
  case (snoc x xs)
  show ?case
  proof (cases "o_price x = p")
    case True
    have z: "p \<notin> o_price ` set xs \<Longrightarrow> quantity_at p xs = 0"
    proof -
      assume "p \<notin> o_price ` set xs"
      then have "filter (\<lambda>x. o_price x = p) xs = []"
        by (auto simp: filter_empty_conv)
      then show ?thesis by (simp add: quantity_at_def)
    qed
    from True snoc z show ?thesis
      by (auto simp: priceQuantityMap_snoc umap_add_map_of quantity_at_snoc)
  next
    case False
    with snoc show ?thesis
      by (auto simp: priceQuantityMap_snoc umap_add_map_of quantity_at_snoc)
  qed
qed


lemma priceQuantityMap_set:
  "set (priceQuantityMap xs) = (\<lambda>p. (p, quantity_at p xs)) ` (o_price ` set xs)"
proof -
  have "(p, q) \<in> set (priceQuantityMap xs) \<longleftrightarrow> p \<in> o_price ` set xs \<and> q = quantity_at p xs" for p q
  proof -
    have "(p, q) \<in> set (priceQuantityMap xs) \<longleftrightarrow> map_of (priceQuantityMap xs) p = Some q"
      using priceQuantityMap_distinct [of xs] by (simp add: map_of_eq_Some_iff)
    also have "\<dots> \<longleftrightarrow> p \<in> o_price ` set xs \<and> q = quantity_at p xs"
      unfolding priceQuantityMap_map_of by auto
    finally show ?thesis .
  qed
  then show ?thesis by (auto simp: image_iff)
qed


lemma aggregateStack_set:
  assumes "\<And>m. mset (enum m) = mset m"
  shows "set (aggregateStack enum xs sd) =
           (\<lambda>p. \<lparr>o_price = p, o_quantity = quantity_at p xs, o_side = sd\<rparr>) ` (o_price ` set xs)"
proof -
  have "set_mset (mset (enum (priceQuantityMap xs))) = set_mset (mset (priceQuantityMap xs))"
    by (simp only: assms)
  then have e: "set (enum (priceQuantityMap xs)) = set (priceQuantityMap xs)"
    by simp
  show ?thesis
    unfolding aggregateStack_def set_map e priceQuantityMap_set image_image
    by simp
qed

lemma aggregateStack_distinct:
  assumes "\<And>m. mset (enum m) = mset m"
  shows "distinct (map o_price (aggregateStack enum xs sd))"
proof -
  have a: "map o_price (aggregateStack enum xs sd) = map fst (enum (priceQuantityMap xs))"
    by (simp add: aggregateStack_def comp_def case_prod_beta)
  have "mset (map fst (enum (priceQuantityMap xs))) = mset (map fst (priceQuantityMap xs))"
    by (simp only: mset_map assms)
  then have "distinct (map fst (enum (priceQuantityMap xs))) = distinct (map fst (priceQuantityMap xs))"
    by (rule mset_eq_imp_distinct_iff)
  with priceQuantityMap_distinct [of xs] a show ?thesis by simp
qed

text \<open>
  Claim C4: for a stored order book, \<open>AggregateDepth\<close> returns a book for the same
  product; each of its two stacks holds no price twice and, as a set, consists of one
  order per price of the corresponding input stack, carrying the sum of the quantities
  of the input orders at that price and the side of the stack. The service is left as
  it was. The enumeration order of the hash map is any rearrangement \<open>enum\<close>.
\<close>

theorem AggregateDepth_groups:
  assumes "\<And>m. mset (enum m) = mset m"
    and "map_find (orderBooks s) pid = Some book"
  shows "ob_product (fst (AggregateDepth enum s pid)) = ob_product book
       \<and> distinct (map o_price (bidStack (fst (AggregateDepth enum s pid))))
       \<and> set (bidStack (fst (AggregateDepth enum s pid))) =
           (\<lambda>p. \<lparr>o_price = p, o_quantity = quantity_at p (bidStack book), o_side = BID\<rparr>)
             ` (o_price ` set (bidStack book))
       \<and> distinct (map o_price (offerStack (fst (AggregateDepth enum s pid))))
       \<and> set (offerStack (fst (AggregateDepth enum s pid))) =
           (\<lambda>p. \<lparr>o_price = p, o_quantity = quantity_at p (offerStack book), o_side = OFFER\<rparr>)
             ` (o_price ` set (offerStack book))
       \<and> snd (AggregateDepth enum s pid) = s"
proof -
  have "AggregateDepth enum s pid =
           (\<lparr>ob_product = ob_product book,
             bidStack = aggregateStack enum (bidStack book) BID,
             offerStack = aggregateStack enum (offerStack book) OFFER\<rparr>, s)"
    using assms(2) by (simp add: AggregateDepth_def map_index_hit)
  then show ?thesis
    using aggregateStack_set [OF assms(1)] aggregateStack_distinct [OF assms(1)]
    by simp
qed

theorem AggregateDepth_groups_witness:
  "(\<forall>m :: (double \<times> long) list. mset (rev m) = mset m)
   \<and> map_find (orderBooks depth_service) ''91282CLY5'' = Some depth_book
   \<and> ob_product (fst (AggregateDepth rev depth_service ''91282CLY5'')) = bond_2Y
   \<and> set (bidStack (fst (AggregateDepth rev depth_service ''91282CLY5''))) =
       {\<lparr>o_price = 199 / 2, o_quantity = 15, o_side = BID\<rparr>,
        \<lparr>o_price = 399 / 4, o_quantity = 20, o_side = BID\<rparr>}
   \<and> set (offerStack (fst (AggregateDepth rev depth_service ''91282CLY5''))) =
       {\<lparr>o_price = 100, o_quantity = 15, o_side = OFFER\<rparr>}
   \<and> snd (AggregateDepth rev depth_service ''91282CLY5'') = depth_service"
proof -
  have h1: "mset (rev m) = mset m" for m :: "(double \<times> long) list"
    by simp
  have h2: "map_find (orderBooks depth_service) ''91282CLY5'' = Some depth_book"
    by (simp add: depth_service_def MarketData_OnMessage_def BondMarketDataService_new_def
        map_find_def depth_book_def bond_2Y_def GetProductId_def)
  have v: "bidStack depth_book = [\<lparr>o_price = 199 / 2, o_quantity = 10, o_side = BID\<rparr>,
                  \<lparr>o_price = 199 / 2, o_quantity = 5, o_side = BID\<rparr>,
                  \<lparr>o_price = 399 / 4, o_quantity = 20, o_side = BID\<rparr>]"
    "offerStack depth_book = [\<lparr>o_price = 100, o_quantity = 15, o_side = OFFER\<rparr>]"
    "ob_product depth_book = bond_2Y"
    by (simp_all add: depth_book_def)
  from AggregateDepth_groups [of rev, OF h1 h2] h1 h2
  show ?thesis
    by (simp add: v quantity_at_def insert_commute)
qed

section \<open>The crossing decision of the execution engine\<close>




























section \<open>Two-sided quotes of the streaming engine\<close>

lemma Publish_run_fields:
  "as_listeners (Publish_run s prs) = as_listeners s
   \<and> orderCounter (Publish_run s prs) = orderCounter s + of_nat (length prs)"
proof (induction prs arbitrary: s)
  case Nil
  show ?case by (simp add: Publish_run_def)
next
  case (Cons pr prs)
  have r: "Publish_run s (pr # prs) = Publish_run (fst (PublishAlgorithmicPrice s pr)) prs"
    by (simp add: Publish_run_def)
  have f: "as_listeners (fst (PublishAlgorithmicPrice s pr)) = as_listeners s"
     "orderCounter (fst (PublishAlgorithmicPrice s pr)) = orderCounter s + 1"
    by (simp_all add: PublishAlgorithmicPrice_def Let_def)
  show ?case
    unfolding r using Cons [of "fst (PublishAlgorithmicPrice s pr)"] by (simp add: f)
qed

lemma round_big_bid: "round_finite (10 ^ 16 - 1 / 2) = 10 ^ 16"
proof -
  have "round_finite (10 ^ 16 - 1 / 2)
      = of_int (round_half_even ((10 ^ 16 - 1 / 2) / pow2 1)) * pow2 1"
    by (rule round_finite_at [where k = 53]) (simp_all add: pow2_def)
  also have "(10 ^ 16 - 1 / 2) / pow2 1 = of_int (5 * 10 ^ 15 - 1) + 3 / 4"
    by (simp add: pow2_def)
  also have "round_half_even (of_int (5 * 10 ^ 15 - 1) + 3 / 4) = (5 * 10 ^ 15 - 1) + 1"
    by (rule round_half_even_cases(2)) simp_all
  finally show ?thesis
    by (simp add: pow2_def)
qed

lemma round_big_offer: "round_finite (10 ^ 16 + 1 / 2) = 10 ^ 16"
proof -
  have "round_finite (10 ^ 16 + 1 / 2)
      = of_int (round_half_even ((10 ^ 16 + 1 / 2) / pow2 1)) * pow2 1"
    by (rule round_finite_at [where k = 53]) (simp_all add: pow2_def)
  also have "(10 ^ 16 + 1 / 2) / pow2 1 = of_int (5 * 10 ^ 15) + 1 / 4"
    by (simp add: pow2_def)
  also have "round_half_even (of_int (5 * 10 ^ 15) + 1 / 4) = 5 * 10 ^ 15"
    by (rule round_half_even_cases(1)) simp_all
  finally show ?thesis
    by (simp add: pow2_def)
qed

lemma stream_service0_new: "stream_service0 = AlgoStreamingService_new\<lparr>as_listeners := [3]\<rparr>"
  by (simp add: stream_service0_def AlgoStreaming_AddListener_def AlgoStreamingService_new_def)

text \<open>
  Claim C5, as stated, at a mid of \<open>10^16\<close> and a spread of 1, both doubles. The doubles
  next to \<open>10^16\<close> are 2 apart, so mid minus half the spread and mid plus half the
  spread both round to the mid: the quote carries the mid as bid price and as offer
  price.
\<close>

theorem PublishAlgorithmicPrice_rounding_counterexample:
  "is_double (mid price_big) \<and> is_double (bidOfferSpread price_big)
   \<and> snd (PublishAlgorithmicPrice stream_service0 price_big) =
       [(3, \<lparr>priceStream = Some
           \<lparr>ps_product = bond_2Y,
            ps_bidOrder = \<lparr>pso_price = Fin (10 ^ 16), pso_visibleQuantity = 10000000,
                           pso_hiddenQuantity = 20000000, pso_side = BID\<rparr>,
            ps_offerOrder = \<lparr>pso_price = Fin (10 ^ 16), pso_visibleQuantity = 10000000,
                             pso_hiddenQuantity = 20000000, pso_side = OFFER\<rparr>\<rparr>\<rparr>)]
   \<and> mid price_big - bidOfferSpread price_big / 2 < 10 ^ 16
   \<and> 10 ^ 16 < mid price_big + bidOfferSpread price_big / 2"
proof -
  have m: "mid price_big = 10 ^ 16" "bidOfferSpread price_big = 1" "p_product price_big = bond_2Y"
    by (simp_all add: price_big_def)
  have d: "is_double (10 ^ 16)" "is_double 1" "is_double (1 / 2)"
    using is_double_dyadic [of "5 ^ 16" 16] is_double_dyadic [of 1 0] is_double_dyadic [of 1 "- 1"]
    by (simp_all add: pow2_def)
  have h: "dbl_div 1 2 = Fin (1 / 2)"
    unfolding dbl_div_def by (rule is_double_round_double) (rule d)
  have b: "dbl_sub (10 ^ 16) (Fin (1 / 2)) = Fin (10 ^ 16)"
    unfolding dbl_sub.simps using round_big_bid by (rule round_double_finite) (simp_all add: DBL_MAX_def)
  have o: "dbl_add (10 ^ 16) (Fin (1 / 2)) = Fin (10 ^ 16)"
    unfolding dbl_add.simps using round_big_offer by (rule round_double_finite) (simp_all add: DBL_MAX_def)
  have q: "snd (PublishAlgorithmicPrice stream_service0 price_big) =
       [(3, \<lparr>priceStream = Some
           \<lparr>ps_product = bond_2Y,
            ps_bidOrder = \<lparr>pso_price = Fin (10 ^ 16), pso_visibleQuantity = 10000000,
                           pso_hiddenQuantity = 20000000, pso_side = BID\<rparr>,
            ps_offerOrder = \<lparr>pso_price = Fin (10 ^ 16), pso_visibleQuantity = 10000000,
                             pso_hiddenQuantity = 20000000, pso_side = OFFER\<rparr>\<rparr>\<rparr>)]"
    unfolding PublishAlgorithmicPrice_def Let_def m h b o
    by (simp add: stream_service0_new AlgoStreamingService_new_def notify_all_def AlgoStream_new_def
        long_rem_2_nonneg)
  show ?thesis
    unfolding q using d(1,2) by (simp add: m)
qed

text \<open>
  Claim C5, amended. Let a streaming engine be constructed, given any listeners \<open>ls\<close>,
  and fed any sequence \<open>prs\<close> of fewer than \<open>2^63 - 1\<close> prices. On the next price,
  whatever it is, every listener receives one and the same two-sided quote, which is
  also stored under the product id: its bid price is the \<open>double\<close> difference of the mid
  and the \<open>double\<close> half of the spread, its offer price their \<open>double\<close> sum, its visible
  quantity 10,000,000 when the number of earlier prices is even and 20,000,000 when it
  is odd, its hidden quantity twice the visible one on both sides. The counter of the
  engine equals the number of earlier prices and goes up by one. Whenever half the
  spread and mid minus half the spread are representable as doubles, the bid price is
  mid minus half the spread; likewise the offer price is mid plus half the spread.
\<close>

theorem PublishAlgorithmicPrice_quote:
  assumes "s0 = AlgoStreamingService_new\<lparr>as_listeners := ls\<rparr>"
    and "s = Publish_run s0 prs"
    and "length prs < 2 ^ 63 - 1"
    and "visible = (if even (length prs) then 10000000 else 20000000)"
    and "half = dbl_div (bidOfferSpread pr) 2"
    and "quote = \<lparr>priceStream = Some
           \<lparr>ps_product = p_product pr,
            ps_bidOrder = \<lparr>pso_price = dbl_sub (mid pr) half, pso_visibleQuantity = visible,
                           pso_hiddenQuantity = 2 * visible, pso_side = BID\<rparr>,
            ps_offerOrder = \<lparr>pso_price = dbl_add (mid pr) half, pso_visibleQuantity = visible,
                             pso_hiddenQuantity = 2 * visible, pso_side = OFFER\<rparr>\<rparr>\<rparr>"
  shows "snd (PublishAlgorithmicPrice s pr) = map (\<lambda>l. (l, quote)) ls
       \<and> map_find (algoStreamMap (fst (PublishAlgorithmicPrice s pr))) (GetProductId (p_product pr))
            = Some quote
       \<and> sint (orderCounter s) = int (length prs)
       \<and> sint (orderCounter (fst (PublishAlgorithmicPrice s pr))) = int (length prs) + 1
       \<and> (is_double (bidOfferSpread pr / 2) \<and> is_double (mid pr - bidOfferSpread pr / 2)
            \<longrightarrow> dbl_sub (mid pr) half = Fin (mid pr - bidOfferSpread pr / 2))
       \<and> (is_double (bidOfferSpread pr / 2) \<and> is_double (mid pr + bidOfferSpread pr / 2)
            \<longrightarrow> dbl_add (mid pr) half = Fin (mid pr + bidOfferSpread pr / 2))"
proof -
  note F = Publish_run_fields [of s0 prs]
  have li: "as_listeners s = ls"
    using F assms(1,2) by simp
  have oc: "orderCounter s = of_nat (length prs)"
    using F assms(1,2) by (simp add: AlgoStreamingService_new_def)
  have s1: "sint (orderCounter s) = int (length prs)"
    unfolding oc using assms(3) by (intro sint_of_nat_long) simp
  have "orderCounter (fst (PublishAlgorithmicPrice s pr)) = of_nat (Suc (length prs))"
    by (simp add: PublishAlgorithmicPrice_def Let_def oc)
  moreover have "Suc (length prs) < 2 ^ 63"
    using assms(3) by simp
  ultimately have s2: "sint (orderCounter (fst (PublishAlgorithmicPrice s pr))) = int (length prs) + 1"
    using sint_of_nat_long [of "Suc (length prs)"] by simp
  have ev: "even (orderCounter s) \<longleftrightarrow> even (length prs)"
    by (simp add: oc)
  have lr: "long_rem (orderCounter s) 2 = (if even (length prs) then 0 else 1)"
    using long_rem_2_nonneg [of "orderCounter s"] s1 ev by simp
  have q: "snd (PublishAlgorithmicPrice s pr) = map (\<lambda>l. (l, quote)) ls
       \<and> map_find (algoStreamMap (fst (PublishAlgorithmicPrice s pr))) (GetProductId (p_product pr))
            = Some quote"
    by (simp add: PublishAlgorithmicPrice_def Let_def lr li assms(4,5,6) notify_all_def
        map_find_map_assign AlgoStream_new_def)
  have b: "is_double (bidOfferSpread pr / 2) \<and> is_double (mid pr - bidOfferSpread pr / 2)
            \<longrightarrow> dbl_sub (mid pr) half = Fin (mid pr - bidOfferSpread pr / 2)"
    by (simp add: assms(5) dbl_div_def is_double_def)
  have o: "is_double (bidOfferSpread pr / 2) \<and> is_double (mid pr + bidOfferSpread pr / 2)
            \<longrightarrow> dbl_add (mid pr) half = Fin (mid pr + bidOfferSpread pr / 2)"
    by (simp add: assms(5) dbl_div_def is_double_def)
  from q s1 s2 b o show ?thesis
    by blast
qed

theorem PublishAlgorithmicPrice_quote_witness:
  "stream_service0 = AlgoStreamingService_new\<lparr>as_listeners := [3]\<rparr>
   \<and> length [price_a] < 2 ^ 63 - 1
   \<and> is_double (bidOfferSpread price_b / 2)
   \<and> is_double (mid price_b - bidOfferSpread price_b / 2)
   \<and> is_double (mid price_b + bidOfferSpread price_b / 2)
   \<and> snd (PublishAlgorithmicPrice (Publish_run stream_service0 [price_a]) price_b) =
       [(3, \<lparr>priceStream = Some
           \<lparr>ps_product = bond_3Y,
            ps_bidOrder = \<lparr>pso_price = Fin (199 / 2 - 1 / 256), pso_visibleQuantity = 20000000,
                           pso_hiddenQuantity = 40000000, pso_side = BID\<rparr>,
            ps_offerOrder = \<lparr>pso_price = Fin (199 / 2 + 1 / 256), pso_visibleQuantity = 20000000,
                             pso_hiddenQuantity = 40000000, pso_side = OFFER\<rparr>\<rparr>\<rparr>)]
   \<and> sint (orderCounter (Publish_run stream_service0 [price_a])) = 1
   \<and> sint (orderCounter (fst (PublishAlgorithmicPrice (Publish_run stream_service0 [price_a]) price_b))) = 2"
proof -
  note h1 = stream_service0_new
  have h3: "length [price_a] < 2 ^ 63 - 1"
    by simp
  have m: "mid price_b = 199 / 2" "bidOfferSpread price_b = 1 / 128" "p_product price_b = bond_3Y"
    by (simp_all add: price_b_def)
  have d: "is_double (bidOfferSpread price_b / 2)"
    "is_double (mid price_b - bidOfferSpread price_b / 2)"
    "is_double (mid price_b + bidOfferSpread price_b / 2)"
    unfolding m
    using is_double_dyadic [of 1 "- 8"] is_double_dyadic [of "199 * 128 - 1" "- 8"]
      is_double_dyadic [of "199 * 128 + 1" "- 8"] by (simp_all add: pow2_def)
  note T = PublishAlgorithmicPrice_quote [OF h1 refl h3 refl refl refl, of price_b]
  have b: "dbl_sub (mid price_b) (dbl_div (bidOfferSpread price_b) 2) = Fin (199 / 2 - 1 / 256)"
    using T [THEN conjunct2, THEN conjunct2, THEN conjunct2, THEN conjunct2, THEN conjunct1] d
    by (simp add: m)
  have o: "dbl_add (mid price_b) (dbl_div (bidOfferSpread price_b) 2) = Fin (199 / 2 + 1 / 256)"
    using T [THEN conjunct2, THEN conjunct2, THEN conjunct2, THEN conjunct2, THEN conjunct2] d
    by (simp add: m)
  have q: "snd (PublishAlgorithmicPrice (Publish_run stream_service0 [price_a]) price_b) =
       [(3, \<lparr>priceStream = Some
           \<lparr>ps_product = bond_3Y,
            ps_bidOrder = \<lparr>pso_price = Fin (199 / 2 - 1 / 256), pso_visibleQuantity = 20000000,
                           pso_hiddenQuantity = 40000000, pso_side = BID\<rparr>,
            ps_offerOrder = \<lparr>pso_price = Fin (199 / 2 + 1 / 256), pso_visibleQuantity = 20000000,
                             pso_hiddenQuantity = 40000000, pso_side = OFFER\<rparr>\<rparr>\<rparr>)]"
    unfolding T [THEN conjunct1] b o by (simp add: m)
  have c1: "sint (orderCounter (Publish_run stream_service0 [price_a])) = 1"
    using T [THEN conjunct2, THEN conjunct2, THEN conjunct1] by simp
  have c2: "sint (orderCounter (fst (PublishAlgorithmicPrice (Publish_run stream_service0 [price_a])
      price_b))) = 2"
    using T [THEN conjunct2, THEN conjunct2, THEN conjunct2, THEN conjunct1] by simp
  show ?thesis
    by (intro conjI) (rule h1, rule h3, rule d(1), rule d(2), rule d(3), rule q, rule c1, rule c2)
qed

section \<open>Positions\<close>

lemma AddPosition_positions:
  "map_of (positions (Position_AddPosition bk q pos)) =
     (map_of (positions pos))(bk \<mapsto> book_qty (positions pos) bk + q)"
  by (cases "map_of (positions pos) bk")
    (simp_all add: Position_AddPosition_def map_index_def map_find_def map_of_map_assign book_qty_def)

lemma AddPosition_product: "pos_product (Position_AddPosition bk q pos) = pos_product pos"
  by (simp add: Position_AddPosition_def split: prod.splits)

lemma AddPosition_wf: "map_wf (positions pos) \<Longrightarrow> map_wf (positions (Position_AddPosition bk q pos))"
  by (cases "map_of (positions pos) bk")
    (simp_all add: Position_AddPosition_def map_index_def map_find_def map_wf_map_assign)

lemma AddPosition_aggregate:
  assumes "map_wf (positions pos)"
  shows "GetAggregatePosition (Position_AddPosition bk q pos) = GetAggregatePosition pos + q"
proof (cases "map_of (positions pos) bk")
  case None
  have w: "map_wf (map_assign bk 0 (positions pos))"
    using assms by (rule map_wf_map_assign)
  show ?thesis
    using None
    by (simp add: aggregate_sum_list Position_AddPosition_def map_index_def map_find_def
        map_assign_sum [OF w] map_assign_sum [OF assms] map_of_map_assign)
next
  case (Some v)
  then show ?thesis
    by (simp add: aggregate_sum_list Position_AddPosition_def map_index_def map_find_def
        map_assign_sum [OF assms])
qed

lemma copy_forward_Cons:
  "copy_forward pt (e # es) = copy_forward (Position_AddPosition (fst e) (snd e) pt) es"
  by (simp add: copy_forward_def)

lemma copy_forward_product: "pos_product (copy_forward pt m) = pos_product pt"
  by (induction m arbitrary: pt) (simp_all add: copy_forward_def AddPosition_product)

lemma copy_forward_wf: "map_wf (positions pt) \<Longrightarrow> map_wf (positions (copy_forward pt m))"
  by (induction m arbitrary: pt) (simp_all add: copy_forward_def AddPosition_wf)

lemma copy_forward_aggregate:
  "map_wf (positions pt) \<Longrightarrow>
     GetAggregatePosition (copy_forward pt m) = GetAggregatePosition pt + sum_list (map snd m)"
proof (induction m arbitrary: pt)
  case Nil
  show ?case by (simp add: copy_forward_def)
next
  case (Cons e es)
  from Cons.IH [OF AddPosition_wf [OF Cons.prems], of "fst e" "snd e"]
  show ?case
    by (simp add: copy_forward_Cons AddPosition_aggregate [OF Cons.prems] add.assoc)
qed

lemma copy_forward_positions:
  "distinct (map fst m) \<Longrightarrow>
     map_of (positions (copy_forward pt m)) b =
       (case map_of m b of
          None \<Rightarrow> map_of (positions pt) b
        | Some q \<Rightarrow> Some (book_qty (positions pt) b + q))"
proof (induction m arbitrary: pt)
  case Nil
  show ?case by (simp add: copy_forward_def)
next
  case (Cons e es)
  from Cons.prems have d: "distinct (map fst es)" and n: "fst e \<notin> fst ` set es" by auto
  from n have none: "map_of es (fst e) = None" by (simp add: map_of_eq_None_iff)
  show ?case
    unfolding copy_forward_Cons Cons.IH [OF d]
    using none
    by (cases e) (auto simp: AddPosition_positions book_qty_def split: option.splits)
qed

lemma map_index_stored:
  "positions (fst (map_index Position_zero (ps_positions s) pid)) = stored_books s pid"
  by (simp add: map_index_def stored_books_def Position_zero_def split: option.splits)

lemma map_index_others:
  "k \<noteq> pid \<Longrightarrow> map_find (snd (map_index d m pid)) k = map_find m k"
  by (simp add: map_index_def map_find_map_assign split: option.splits)

lemma AddTrade_result:
  "AddTrade s t =
     (let pid = GetProductId (t_product t);
          np = copy_forward
                 (Position_AddPosition (t_book t) (signed_quantity t) (Position_new (t_product t)))
                 (stored_books s pid)
      in (s\<lparr>ps_positions := map_assign pid np (snd (map_index Position_zero (ps_positions s) pid))\<rparr>,
          notify_all (ps_listeners s) np))"
proof -
  have sq: "(case t_side t of
               BUY \<Rightarrow> Position_AddPosition (t_book t) (t_quantity t) (Position_new (t_product t))
             | SELL \<Rightarrow> Position_AddPosition (t_book t) (- t_quantity t) (Position_new (t_product t)))
          = Position_AddPosition (t_book t) (signed_quantity t) (Position_new (t_product t))"
    by (cases "t_side t") (simp_all add: signed_quantity_def)
  show ?thesis
    unfolding AddTrade_def Let_def sq
    by (simp add: case_prod_beta map_index_stored)
qed

text \<open>
  Claim C7. For every trade and every service state, \<open>AddTrade\<close> stores under the
  trade's product id a new \<open>Position\<close> of the trade's product in which the trade's book
  holds its prior quantity (zero if it had none, and the prior position is empty if none
  was stored) plus the signed trade quantity, every other book holds what it held and no
  further book appears; the entries of other product ids stay as they were; and every
  listener is called once with exactly this new \<open>Position\<close>.
\<close>

theorem AddTrade_replaces:
  assumes "pid = GetProductId (t_product t)"
    and "prior = stored_books s pid"
    and "map_wf prior"
  shows "\<exists>np. map_find (ps_positions (fst (AddTrade s t))) pid = Some np
            \<and> snd (AddTrade s t) = map (\<lambda>l. (l, np)) (ps_listeners s)
            \<and> pos_product np = t_product t
            \<and> map_of (positions np) =
                (map_of prior)(t_book t \<mapsto> book_qty prior (t_book t) + signed_quantity t)
            \<and> (\<forall>k. k \<noteq> pid \<longrightarrow>
                  map_find (ps_positions (fst (AddTrade s t))) k = map_find (ps_positions s) k)"
proof -
  define np where "np = copy_forward
                 (Position_AddPosition (t_book t) (signed_quantity t) (Position_new (t_product t)))
                 prior"
  have d: "distinct (map fst prior)"
    using assms(3) by (rule map_wf_distinct)
  have m: "map_of (positions np) b =
      ((map_of prior)(t_book t \<mapsto> book_qty prior (t_book t) + signed_quantity t)) b" for b
    unfolding np_def copy_forward_positions [OF d]
    by (auto simp: AddPosition_positions Position_new_def book_qty_def split: option.splits)
  have p: "pos_product np = t_product t"
    by (simp add: np_def copy_forward_product AddPosition_product Position_new_def)
  have r: "AddTrade s t =
      (s\<lparr>ps_positions := map_assign pid np (snd (map_index Position_zero (ps_positions s) pid))\<rparr>,
       notify_all (ps_listeners s) np)"
    by (simp add: AddTrade_result Let_def np_def assms(1,2))
  show ?thesis
    apply (rule exI [of _ np])
    using p m
    by (auto simp: r map_find_map_assign notify_all_def map_index_others)
qed

theorem AddTrade_replaces_witness:
  "''91282CLY5'' = GetProductId (t_product trade4)
   \<and> stored_books (AddTrade_run pos_service0 trades1) ''91282CLY5''
        = [(''TRSY1'', - 2000000), (''TRSY2'', 4000000)]
   \<and> map_wf [(''TRSY1'', - 2000000 :: long), (''TRSY2'', 4000000)]
   \<and> (\<exists>np. map_find (ps_positions (fst (AddTrade (AddTrade_run pos_service0 trades1) trade4))) ''91282CLY5''
               = Some np
          \<and> snd (AddTrade (AddTrade_run pos_service0 trades1) trade4) = [(1, np)]
          \<and> pos_product np = bond_2Y
          \<and> map_of (positions np) ''TRSY1'' = Some (- 2000000)
          \<and> map_of (positions np) ''TRSY2'' = Some 3500000
          \<and> map_of (positions np) ''TRSY3'' = None)"
proof -
  have h1: "''91282CLY5'' = GetProductId (t_product trade4)"
    by (simp add: trade4_def GetProductId_def bond_2Y_def)
  have h2: "[(''TRSY1'', - 2000000), (''TRSY2'', 4000000)]
              = stored_books (AddTrade_run pos_service0 trades1) ''91282CLY5''"
    by (simp add: AddTrade_run_def AddTrade_def pos_service0_def trades1_def PositionService_new_def
      stored_books_def map_find_def map_index_def copy_forward_def Position_AddPosition_def
      Position_new_def Position_zero_def GetProductId_def bond_2Y_def Let_def)
  have h3: "map_wf [(''TRSY1'', - 2000000 :: long), (''TRSY2'', 4000000)]"
    by (simp add: map_wf_def)
  have l: "ps_listeners (AddTrade_run pos_service0 trades1) = [1]"
    by (simp add: AddTrade_run_def AddTrade_def pos_service0_def trades1_def PositionService_new_def
        Let_def case_prod_beta)
  have q: "signed_quantity trade4 = - 500000" "t_book trade4 = ''TRSY2''" "t_product trade4 = bond_2Y"
    by (simp_all add: trade4_def signed_quantity_def)
  from AddTrade_replaces [OF h1 h2 h3]
  obtain np where np: "map_find (ps_positions (fst (AddTrade (AddTrade_run pos_service0 trades1) trade4))) ''91282CLY5''
               = Some np"
          "snd (AddTrade (AddTrade_run pos_service0 trades1) trade4) = map (\<lambda>l. (l, np)) [1]"
          "pos_product np = bond_2Y"
          "map_of (positions np) = (map_of [(''TRSY1'', - 2000000), (''TRSY2'', 4000000)])
              (''TRSY2'' \<mapsto> book_qty [(''TRSY1'', - 2000000), (''TRSY2'', 4000000)] ''TRSY2'' + - 500000)"
    unfolding l q by blast
  have "map_of (positions np) ''TRSY1'' = Some (- 2000000)"
    "map_of (positions np) ''TRSY2'' = Some 3500000"
    "map_of (positions np) ''TRSY3'' = None"
    by (simp_all add: np(4) book_qty_def)
  with np(1,2,3) h1 h2 h3 show ?thesis
    by auto
qed

lemma AddTrade_books:
  assumes "GetProductId (t_product t) = pid" and "map_wf (stored_books s pid)"
  shows "map_wf (stored_books (fst (AddTrade s t)) pid)"
    and "sum_list (map snd (stored_books (fst (AddTrade s t)) pid))
           = sum_list (map snd (stored_books s pid)) + signed_quantity t"
proof -
  let ?p1 = "Position_AddPosition (t_book t) (signed_quantity t) (Position_new (t_product t))"
  let ?np = "copy_forward ?p1 (stored_books s pid)"
  have w0: "map_wf (positions (Position_new (t_product t)))"
    by (simp add: Position_new_def map_wf_def)
  have w1: "map_wf (positions ?p1)"
    using w0 by (rule AddPosition_wf)
  have st: "stored_books (fst (AddTrade s t)) pid = positions ?np"
    by (simp add: AddTrade_result Let_def assms(1) stored_books_def map_find_map_assign)
  show "map_wf (stored_books (fst (AddTrade s t)) pid)"
    unfolding st using w1 by (rule copy_forward_wf)
  have "GetAggregatePosition ?np = GetAggregatePosition ?p1 + sum_list (map snd (stored_books s pid))"
    using w1 by (rule copy_forward_aggregate)
  also have "GetAggregatePosition ?p1 = signed_quantity t"
    by (simp add: AddPosition_aggregate [OF w0]) (simp add: aggregate_sum_list Position_new_def)
  finally show "sum_list (map snd (stored_books (fst (AddTrade s t)) pid))
           = sum_list (map snd (stored_books s pid)) + signed_quantity t"
    by (simp add: st aggregate_sum_list)
qed

lemma AddTrade_run_books:
  assumes "\<forall>t\<in>set ts. GetProductId (t_product t) = pid" and "map_wf (stored_books s pid)"
  shows "map_wf (stored_books (AddTrade_run s ts) pid)
       \<and> sum_list (map snd (stored_books (AddTrade_run s ts) pid))
           = sum_list (map snd (stored_books s pid)) + sum_list (map signed_quantity ts)"
  using assms
proof (induction ts arbitrary: s)
  case Nil
  then show ?case by (simp add: AddTrade_run_def)
next
  case (Cons t ts)
  have r: "AddTrade_run s (t # ts) = AddTrade_run (fst (AddTrade s t)) ts"
    by (simp add: AddTrade_run_def)
  from Cons.prems have pt: "GetProductId (t_product t) = pid"
    and rest: "\<forall>t\<in>set ts. GetProductId (t_product t) = pid" by simp_all
  note B = AddTrade_books [OF pt Cons.prems(2)]
  from Cons.IH [OF rest B(1)] B(2) show ?case
    unfolding r by (simp add: add.assoc)
qed

lemma GetData_aggregate:
  "GetAggregatePosition (fst (Position_GetData s pid)) = sum_list (map snd (stored_books s pid))"
  by (simp add: Position_GetData_def map_index_def stored_books_def aggregate_sum_list
      Position_zero_def split: option.splits)

text \<open>
  Claim C6. Starting from an empty store, after any finite sequence of trades that all
  carry one product id, the aggregate position of the \<open>Position\<close> stored (or returned by
  \<open>GetData\<close>) for that id is the sum of the signed quantities of the trades, in 64-bit
  arithmetic; and any rearrangement of the sequence gives the same aggregate.
\<close>

theorem AddTrade_run_aggregate:
  assumes "\<forall>t\<in>set ts. GetProductId (t_product t) = pid"
    and "mset ts' = mset ts"
    and "s0 = PositionService_new\<lparr>ps_listeners := ls\<rparr>"
  shows "GetAggregatePosition (fst (Position_GetData (AddTrade_run s0 ts) pid))
           = sum_list (map signed_quantity ts)
       \<and> GetAggregatePosition (fst (Position_GetData (AddTrade_run s0 ts') pid))
           = GetAggregatePosition (fst (Position_GetData (AddTrade_run s0 ts) pid))"
proof -
  have e: "map_wf (stored_books s0 pid)" "sum_list (map snd (stored_books s0 pid)) = 0"
    by (simp_all add: assms(3) stored_books_def PositionService_new_def map_find_def map_wf_def)
  have "set ts' = set ts"
    using assms(2) by (rule mset_eq_setD)
  with assms(1) have a': "\<forall>t\<in>set ts'. GetProductId (t_product t) = pid" by simp
  have "sum_list (map signed_quantity ts') = sum_mset (image_mset signed_quantity (mset ts'))"
    by (simp flip: sum_mset_sum_list)
  also have "\<dots> = sum_list (map signed_quantity ts)"
    by (simp add: assms(2) flip: sum_mset_sum_list)
  finally have p: "sum_list (map signed_quantity ts') = sum_list (map signed_quantity ts)" .
  from AddTrade_run_books [OF assms(1) e(1)] AddTrade_run_books [OF a' e(1)] e(2) p
  show ?thesis
    by (simp add: GetData_aggregate)
qed

theorem AddTrade_run_aggregate_witness:
  "list_all (\<lambda>t. GetProductId (t_product t) = ''91282CLY5'') trades1
   \<and> mset (rev trades1) = mset trades1
   \<and> pos_service0 = PositionService_new\<lparr>ps_listeners := [1]\<rparr>
   \<and> GetAggregatePosition (fst (Position_GetData (AddTrade_run pos_service0 trades1) ''91282CLY5'')) = 2000000
   \<and> GetAggregatePosition (fst (Position_GetData (AddTrade_run pos_service0 (rev trades1)) ''91282CLY5'')) = 2000000"
proof -
  have h1: "\<forall>t\<in>set trades1. GetProductId (t_product t) = ''91282CLY5''"
    by (simp add: trades1_def GetProductId_def bond_2Y_def)
  have h2: "mset (rev trades1) = mset trades1"
    by simp
  have h3: "pos_service0 = PositionService_new\<lparr>ps_listeners := [1]\<rparr>"
    by (simp add: pos_service0_def)
  have v: "sum_list (map signed_quantity trades1) = 2000000"
    by (simp add: trades1_def signed_quantity_def)
  from AddTrade_run_aggregate [OF h1 h2 h3] h1 h2 h3 v
  show ?thesis
    by (simp add: list_all_iff)
qed


section \<open>Risk\<close>

text \<open>
  Claim C8. If the product id of the position is not a key of the PV01 table,
  \<open>AddPosition\<close> ends with the exception \<open>invalid_argument\<close>, the service is exactly as
  before (no entry of the PV01 map added or overwritten) and no listener has been called.
  If the product id is a key of the table, \<open>AddPosition\<close> returns normally and stores the
  PV01 of the table with the aggregate quantity of the position.
\<close>

theorem AddPosition_unknown_product:
  "(if map_of pv01_map (GetProductId (pos_product position)) = None
    then AddPosition s position = (Inl (invalid_argument ''Unknown CUSIP''), s, [])
    else fst (AddPosition s position) = Inr ()
       \<and> map_find (pv01s (fst (snd (AddPosition s position)))) (GetProductId (pos_product position)) =
           Some \<lparr>pv_product = pos_product position,
                 pv01 = the (map_of pv01_map (GetProductId (pos_product position))),
                 pv_quantity = GetAggregatePosition position\<rparr>)"
  by (auto simp: AddPosition_def PV01Info_def Let_def map_find_map_assign split: option.splits)


theorem AddPosition_unknown_product_witness:
  "map_of pv01_map (GetProductId (pos_product position_unknown)) = None
   \<and> AddPosition risk_service1 position_unknown
       = (Inl (invalid_argument ''Unknown CUSIP''), risk_service1, [])
   \<and> map_of pv01_map (GetProductId (pos_product position_2Y)) = Some (1854 / 10000)
   \<and> fst (AddPosition risk_service0 position_2Y) = Inr ()
   \<and> map_find (pv01s risk_service1) ''91282CLY5''
       = Some \<lparr>pv_product = bond_2Y, pv01 = 1854 / 10000, pv_quantity = 2000000\<rparr>"
proof -
  have u: "map_of pv01_map (GetProductId (pos_product position_unknown)) = None"
    by (simp add: pv01_map_def position_unknown_def bond_unknown_def GetProductId_def)
  have k: "map_of pv01_map (GetProductId (pos_product position_2Y)) = Some (1854 / 10000)"
    by (simp add: pv01_map_def position_2Y_def bond_2Y_def GetProductId_def)
  have p: "GetProductId bond_2Y = ''91282CLY5''" "pos_product position_2Y = bond_2Y"
    "GetAggregatePosition position_2Y = 2000000"
    by (simp_all add: position_2Y_def bond_2Y_def GetProductId_def GetAggregatePosition_def)
  from AddPosition_unknown_product [of position_unknown risk_service1]
    AddPosition_unknown_product [of position_2Y risk_service0] u k
  show ?thesis
    by (simp add: p risk_service1_def)
qed


section \<open>Reading a key that was never written\<close>

lemma map_assign_length: "map_find m k = None \<Longrightarrow> length (map_assign k v m) = Suc (length m)"
  by (induction m) (auto simp: map_find_def split: if_splits)

lemma map_index_absent:
  assumes "map_find m k = None"
  shows "fst (map_index d m k) = d"
    and "map_find (snd (map_index d m k)) k = Some d"
    and "length (snd (map_index d m k)) = Suc (length m)"
    and "k \<in> fst ` set (snd (map_index d m k))"
  using assms
  by (simp_all add: map_index_miss map_find_map_assign map_assign_length map_assign_keys)

text \<open>
  Claim C10. In the pricing, risk, market-data and position services, \<open>GetData\<close> on a
  key that has no entry returns the value-initialised value and leaves the store with
  an entry for that key holding this value: the map has grown by one entry, and the key
  is among its keys afterwards.
\<close>

theorem GetData_inserts_default:
  assumes "map_find (priceData ps) k = None"
    and "map_find (pv01s rs) k = None"
    and "map_find (orderBooks ms) k = None"
    and "map_find (ps_positions qs) k = None"
  shows "fst (Pricing_GetData ps k) = Price_zero
       \<and> map_find (priceData (snd (Pricing_GetData ps k))) k = Some Price_zero
       \<and> k \<in> fst ` set (priceData (snd (Pricing_GetData ps k)))
       \<and> length (priceData (snd (Pricing_GetData ps k))) = Suc (length (priceData ps))
       \<and> fst (Risk_GetData rs k) = PV01_zero
       \<and> map_find (pv01s (snd (Risk_GetData rs k))) k = Some PV01_zero
       \<and> k \<in> fst ` set (pv01s (snd (Risk_GetData rs k)))
       \<and> length (pv01s (snd (Risk_GetData rs k))) = Suc (length (pv01s rs))
       \<and> fst (MarketData_GetData ms k) = OrderBook_zero
       \<and> map_find (orderBooks (snd (MarketData_GetData ms k))) k = Some OrderBook_zero
       \<and> k \<in> fst ` set (orderBooks (snd (MarketData_GetData ms k)))
       \<and> length (orderBooks (snd (MarketData_GetData ms k))) = Suc (length (orderBooks ms))
       \<and> fst (Position_GetData qs k) = Position_zero
       \<and> map_find (ps_positions (snd (Position_GetData qs k))) k = Some Position_zero
       \<and> k \<in> fst ` set (ps_positions (snd (Position_GetData qs k)))
       \<and> length (ps_positions (snd (Position_GetData qs k))) = Suc (length (ps_positions qs))"
  using map_index_absent [OF assms(1), of Price_zero] map_index_absent [OF assms(2), of PV01_zero]
    map_index_absent [OF assms(3), of OrderBook_zero] map_index_absent [OF assms(4), of Position_zero]
  by (simp add: Pricing_GetData_def Risk_GetData_def MarketData_GetData_def Position_GetData_def
      case_prod_beta)

theorem GetData_inserts_default_witness:
  "map_find (priceData PricingService_new) ''91282CMB4'' = None
   \<and> map_find (pv01s risk_service1) ''91282CMB4'' = None
   \<and> map_find (orderBooks depth_service) ''91282CMB4'' = None
   \<and> map_find (ps_positions pos_service0) ''91282CMB4'' = None
   \<and> Pricing_GetData PricingService_new ''91282CMB4''
       = (Price_zero, \<lparr>priceData = [(''91282CMB4'', Price_zero)], pr_listeners = []\<rparr>)
   \<and> fst (Risk_GetData risk_service1 ''91282CMB4'') = PV01_zero
   \<and> map (fst) (pv01s (snd (Risk_GetData risk_service1 ''91282CMB4''))) = [''91282CLY5'', ''91282CMB4'']
   \<and> fst (MarketData_GetData depth_service ''91282CMB4'') = OrderBook_zero
   \<and> length (orderBooks (snd (MarketData_GetData depth_service ''91282CMB4''))) = 2
   \<and> map_find (ps_positions (snd (Position_GetData pos_service0 ''91282CMB4''))) ''91282CMB4'' = Some Position_zero"
proof -
  have m: "pv01s risk_service1 = [(''91282CLY5'', \<lparr>pv_product = bond_2Y, pv01 = 1854 / 10000, pv_quantity = 2000000\<rparr>)]"
    by (simp add: risk_service1_def risk_service0_def RiskService_new_def AddPosition_def PV01Info_def
        pv01_map_def position_2Y_def bond_2Y_def GetProductId_def GetAggregatePosition_def Let_def)
  have d: "orderBooks depth_service = [(''91282CLY5'', depth_book)]"
    by (simp add: depth_service_def MarketData_OnMessage_def BondMarketDataService_new_def
        depth_book_def bond_2Y_def GetProductId_def)
  have h1: "map_find (priceData PricingService_new) ''91282CMB4'' = None"
    by (simp add: PricingService_new_def map_find_def)
  have h2: "map_find (pv01s risk_service1) ''91282CMB4'' = None"
    by (simp add: m map_find_def)
  have h3: "map_find (orderBooks depth_service) ''91282CMB4'' = None"
    by (simp add: d map_find_def)
  have h4: "map_find (ps_positions pos_service0) ''91282CMB4'' = None"
    by (simp add: pos_service0_def PositionService_new_def map_find_def)
  have e: "Pricing_GetData PricingService_new ''91282CMB4''
       = (Price_zero, \<lparr>priceData = [(''91282CMB4'', Price_zero)], pr_listeners = []\<rparr>)"
    by (simp add: Pricing_GetData_def PricingService_new_def map_index_def map_find_def)
  have f: "map (fst) (pv01s (snd (Risk_GetData risk_service1 ''91282CMB4''))) = [''91282CLY5'', ''91282CMB4'']"
    by (simp add: Risk_GetData_def m map_index_def map_find_def)
  from GetData_inserts_default [OF h1 h2 h3 h4] h1 h2 h3 h4 e f
  show ?thesis
    by (simp add: d)
qed

section \<open>Price strings\<close>

lemma of_char_digit: "d < 10 \<Longrightarrow> of_char (digit_char d) = 48 + d"
  by (simp add: digit_char_def)

lemma digit_char_props:
  assumes "d < 10"
  shows "is_digit (digit_char d)" and "digit_val (digit_char d) = d"
    and "digit_char d \<noteq> CHR ''-''" and "digit_char d \<noteq> CHR ''+''"
proof -
  note c = of_char_digit [OF assms]
  show "is_digit (digit_char d)"
    using assms by (simp add: is_digit_def less_eq_char_def c)
  show "digit_val (digit_char d) = d"
    by (simp add: digit_val_def c)
  have "of_char (digit_char d) \<noteq> (of_char CHR ''-'' :: nat)"
    unfolding c by simp
  then show "digit_char d \<noteq> CHR ''-''" by auto
  have "of_char (digit_char d) \<noteq> (of_char CHR ''+'' :: nat)"
    unfolding c by simp
  then show "digit_char d \<noteq> CHR ''+''" by auto
qed

lemma is_digit_not_dash: "is_digit c \<Longrightarrow> c \<noteq> CHR ''-''"
  by (auto simp: is_digit_def less_eq_char_def)

lemma digits_value_snoc: "digits_value (xs @ [c]) = 10 * digits_value xs + digit_val c"
  by (simp add: digits_value_def)

lemma nat_to_string_digits:
  "nat_to_string n \<noteq> [] \<and> list_all is_digit (nat_to_string n) \<and> digits_value (nat_to_string n) = n"
proof (induction n rule: nat_to_string.induct)
  case (1 n)
  show ?case
  proof (cases "n < 10")
    case True
    then show ?thesis
      by (simp add: nat_to_string.simps [of n] digit_char_props digits_value_def)
  next
    case False
    have m: "n mod 10 < 10" by simp
    from False 1 show ?thesis
      by (simp add: nat_to_string.simps [of n] digit_char_props [OF m] digits_value_snoc)
  qed
qed

lemma nat_to_string_small: "n < 10 \<Longrightarrow> nat_to_string n = [digit_char n]"
  by (simp add: nat_to_string.simps [of n])

lemma nat_to_string_two: "10 \<le> n \<Longrightarrow> n < 100 \<Longrightarrow> nat_to_string n = [digit_char (n div 10), digit_char (n mod 10)]"
  by (simp add: nat_to_string.simps [of n] nat_to_string_small)

lemma round_double_of_nat: "n \<le> 2 ^ 53 \<Longrightarrow> round_double (of_nat n) = Fin (of_nat n)"
proof -
  assume "n \<le> 2 ^ 53"
  hence "int n \<le> 2 ^ 53"
    by (metis of_nat_le_iff of_nat_numeral of_nat_power)
  hence "is_double (of_int (int n))"
    by (intro is_double_of_int) simp
  thus ?thesis
    by (simp add: is_double_def)
qed

lemma round_finite_of_nat: "n \<le> 2 ^ 53 \<Longrightarrow> round_finite (of_nat n) = of_nat n"
  using round_double_of_nat [of n] by (simp add: round_double_def Let_def split: if_splits)

lemma is_double_fraction:
  assumes "n < 2 ^ 53" and "j \<le> 1074"
  shows "is_double (of_nat n / 2 ^ j)"
proof -
  have "int n < 2 ^ 53"
    using assms(1) by (metis of_nat_less_iff of_nat_numeral of_nat_power)
  hence "is_double (of_int (int n) * pow2 (- int j))"
    using assms(2) by (intro is_double_dyadic) simp_all
  moreover have "(of_int (int n) * pow2 (- int j) :: rat) = of_nat n / 2 ^ j"
    by (cases "j = 0") (simp_all add: pow2_def)
  ultimately show ?thesis
    by simp
qed

lemma stod_digits:
  assumes "s \<noteq> []" and "list_all is_digit s" and "digits_value s \<le> 2 ^ 53"
  shows "stod s = Some (of_nat (digits_value s))"
  using assms(1,2) by (simp add: stod_def round_double_of_nat [OF assms(3)])

lemma stod_nat_to_string: "n \<le> 2 ^ 53 \<Longrightarrow> stod (nat_to_string n) = Some (of_nat n)"
  using nat_to_string_digits [of n] stod_digits [of "nat_to_string n"] by simp

lemma stod_two: "a < 10 \<Longrightarrow> b < 10 \<Longrightarrow> stod [digit_char a, digit_char b] = Some (of_nat (10 * a + b))"
  using stod_digits [of "[digit_char a, digit_char b]"]
  by (simp add: digit_char_props digits_value_def)

lemma parse_whole:
  "CHR ''-'' \<notin> set w \<Longrightarrow> foldl parse_char (pw, p32, p8, 0) w = (pw @ w, p32, p8, 0)"
  by (induction w arbitrary: pw) (auto simp: parse_char_def)

lemma nat_to_string_no_dash: "CHR ''-'' \<notin> set (nat_to_string n)"
  using nat_to_string_digits [of n] is_digit_not_dash by (auto simp: list_all_iff)

lemma parse_price_string:
  assumes "FF < 100" and "E \<noteq> CHR ''-''"
  shows "foldl parse_char ([], [], [], 0) (price_string W FF E) =
           (nat_to_string W, [digit_char (FF div 10), digit_char (FF mod 10)],
            [if E = CHR ''+'' then CHR ''4'' else E], 3)"
proof -
  have a: "FF div 10 < 10" "FF mod 10 < 10" using assms(1) by simp_all
  show ?thesis
    using assms(2)
    by (simp add: price_string_def parse_whole [OF nat_to_string_no_dash] parse_char_def
        digit_char_props [OF a(1)] digit_char_props [OF a(2)])
qed

lemma digit_val_bound: "is_digit c \<Longrightarrow> digit_val c < 10"
proof -
  assume "is_digit c"
  hence "of_char c \<le> (57 :: nat)"
    by (simp add: is_digit_def less_eq_char_def)
  thus ?thesis
    by (simp add: digit_val_def)
qed

lemma stod_last:
  assumes "E = CHR ''+'' \<or> is_digit E"
  shows "stod [if E = CHR ''+'' then CHR ''4'' else E] = Some (of_nat (eighths E))"
proof (cases "E = CHR ''+''")
  case True
  have "is_digit CHR ''4''" "digit_val CHR ''4'' = 4"
    by (simp_all add: is_digit_def digit_val_def)
  thus ?thesis
    using True stod_digits [of "[CHR ''4'']"] by (simp add: eighths_def digits_value_def)
next
  case False
  hence d: "is_digit E"
    using assms by simp
  have "digit_val E \<le> 2 ^ 53"
    using digit_val_bound [OF d] by simp
  thus ?thesis
    using False d stod_digits [of "[E]"] by (simp add: eighths_def digits_value_def)
qed

lemma eighths_bound: "E = CHR ''+'' \<or> is_digit E \<Longrightarrow> eighths E < 10"
  using digit_val_bound [of E] by (auto simp: eighths_def)

lemma price_sum_exact:
  assumes "W < 2 ^ 31" and "FF < 100" and "e < 10"
  shows "dbl_div (of_nat FF) 32 = Fin (of_nat FF / 32)"
    and "dbl_add (of_nat W) (Fin (of_nat FF / 32)) = Fin (of_nat W + of_nat FF / 32)"
    and "dbl_div (of_nat e) 256 = Fin (of_nat e / 256)"
    and "dbl_add (of_nat W + of_nat FF / 32) (Fin (of_nat e / 256))
           = Fin (of_nat W + of_nat FF / 32 + of_nat e / 256)"
proof -
  have "W * 256 < 2 ^ 31 * 256"
    using assms(1) by simp
  hence b: "FF < 2 ^ 53" "32 * W + FF < 2 ^ 53" "e < 2 ^ 53" "256 * W + 8 * FF + e < 2 ^ 53"
    using assms(2,3) by simp_all
  have e1: "(of_nat FF / 2 ^ 5 :: rat) = of_nat FF / 32"
    and e2: "(of_nat (32 * W + FF) / 2 ^ 5 :: rat) = of_nat W + of_nat FF / 32"
    and e3: "(of_nat e / 2 ^ 8 :: rat) = of_nat e / 256"
    and e4: "(of_nat (256 * W + 8 * FF + e) / 2 ^ 8 :: rat)
      = of_nat W + of_nat FF / 32 + of_nat e / 256"
    by (simp_all add: add_divide_distrib)
  have "is_double (of_nat FF / 2 ^ 5)"
    using b(1) by (rule is_double_fraction) simp
  hence i1: "is_double (of_nat FF / 32)"
    by (simp only: e1)
  have "is_double (of_nat (32 * W + FF) / 2 ^ 5)"
    using b(2) by (rule is_double_fraction) simp
  hence i2: "is_double (of_nat W + of_nat FF / 32)"
    by (simp only: e2)
  have "is_double (of_nat e / 2 ^ 8)"
    using b(3) by (rule is_double_fraction) simp
  hence i3: "is_double (of_nat e / 256)"
    by (simp only: e3)
  have "is_double (of_nat (256 * W + 8 * FF + e) / 2 ^ 8)"
    using b(4) by (rule is_double_fraction) simp
  hence i4: "is_double (of_nat W + of_nat FF / 32 + of_nat e / 256)"
    by (simp only: e4)
  show "dbl_div (of_nat FF) 32 = Fin (of_nat FF / 32)"
    unfolding dbl_div_def using i1 by (rule is_double_round_double)
  show "dbl_add (of_nat W) (Fin (of_nat FF / 32)) = Fin (of_nat W + of_nat FF / 32)"
    unfolding dbl_add.simps using i2 by (rule is_double_round_double)
  show "dbl_div (of_nat e) 256 = Fin (of_nat e / 256)"
    unfolding dbl_div_def using i3 by (rule is_double_round_double)
  show "dbl_add (of_nat W + of_nat FF / 32) (Fin (of_nat e / 256))
           = Fin (of_nat W + of_nat FF / 32 + of_nat e / 256)"
    unfolding dbl_add.simps using i4 by (rule is_double_round_double)
qed

lemma ParsePrice_price_string:
  assumes "W < 2 ^ 31" and "FF < 100" and "E = CHR ''+'' \<or> is_digit E"
  shows "ParsePrice (price_string W FF E) =
           Some (of_nat W + of_nat FF / 32 + of_nat (eighths E) / 256)"
proof -
  have a: "FF div 10 < 10" "FF mod 10 < 10" using assms(2) by simp_all
  have d: "E \<noteq> CHR ''-''"
    using assms(3) is_digit_not_dash by auto
  have w: "nat_to_string W \<noteq> []" using nat_to_string_digits [of W] by simp
  have w53: "W \<le> 2 ^ 53"
    using assms(1) by simp
  have f: "10 * (FF div 10) + FF mod 10 = FF"
    by simp
  note S = price_sum_exact [OF assms(1,2) eighths_bound [OF assms(3)]]
  show ?thesis
    unfolding ParsePrice_def parse_price_string [OF assms(2) d] prod.case
      stod_nat_to_string [OF w53] stod_two [OF a] stod_last [OF assms(3)] f
    using w by (simp only: if_False list.simps option.case S xdouble.case)
qed


lemma floor_whole_plus:
  fixes r :: rat
  assumes "0 \<le> r" and "r < 1"
  shows "\<lfloor>of_nat W + r\<rfloor> = int W"
  using assms by (simp add: floor_eq_iff)

lemma two_digits:
  assumes "FF < 100"
  shows "(if int FF < 10 then ''0'' else []) @ int_to_string (int FF)
           = [digit_char (FF div 10), digit_char (FF mod 10)]"
proof (cases "FF < 10")
  case True
  have "digit_char 0 = CHR ''0''"
    by code_simp
  with True show ?thesis
    by (simp add: int_to_string_def nat_to_string_small)
next
  case False
  with assms show ?thesis
    by (simp add: int_to_string_def nat_to_string_two)
qed

lemma sdiv_smod_nat:
  "int a sdiv 8 = int (a div 8)" "int a smod 8 = int (a mod 8)"
  by (simp_all add: signed_divide_int_def signed_modulo_int_def sgn_if zdiv_int zmod_int)

lemma FormatPrice_parts:
  assumes "W < 2 ^ 31" and "FF < 32" and "e < 8"
  shows "FormatPrice (of_nat W + of_nat FF / 32 + of_nat e / 256) =
           Some (price_string W FF (if e = 4 then CHR ''+'' else digit_char e))"
proof -
  define r :: rat where "r = of_nat (8 * FF + e) / 256"
  have x: "(of_nat W + of_nat FF / 32 + of_nat e / 256 :: rat) = of_nat W + r"
    by (simp add: r_def field_simps)
  have "8 * FF + e < 256" using assms(2,3) by simp
  then have "(of_nat (8 * FF + e) :: rat) < 256"
    by (metis of_nat_less_iff of_nat_numeral)
  then have r01: "0 \<le> r" "r < 1"
    by (simp_all add: r_def)
  have fl: "\<lfloor>of_nat W + r\<rfloor> = int W"
    using r01 by (rule floor_whole_plus)
  have wi: "to_int32 (int W) = Some (int W)"
    using assms(1) by (simp add: to_int32_def)
  have n53: "8 * FF + e < 2 ^ 53"
    using assms(2,3) by simp
  have "is_double (of_nat (8 * FF + e) / 2 ^ 8)"
    using n53 by (rule is_double_fraction) simp
  hence "round_finite r = r"
    unfolding r_def by (intro is_double_round_finite) simp
  hence f1: "round_finite (of_nat W + r - of_int (int W)) = r"
    by simp
  have "r * 256 = of_nat (8 * FF + e)"
    by (simp add: r_def)
  moreover have "round_finite (of_nat (8 * FF + e)) = of_nat (8 * FF + e)"
    using n53 by (intro round_finite_of_nat) simp
  ultimately have fr: "round_finite (r * 256) = of_int (int (8 * FF + e))"
    by (simp only: of_int_of_nat_eq)
  have f256: "\<lfloor>round_finite (round_finite (of_nat W + r - of_int (int W)) * 256)\<rfloor> = int (8 * FF + e)"
    unfolding f1 fr by (rule floor_of_int)
  have fi: "to_int32 (int (8 * FF + e)) = Some (int (8 * FF + e))"
    using assms(2,3) by (simp add: to_int32_def)
  have dv: "(8 * FF + e) div 8 = FF" "(8 * FF + e) mod 8 = e"
    using assms(3) by simp_all
  have ff: "FF < 100" using assms(2) by simp
  have e10: "e < 10" using assms(3) by simp
  have p8: "(if int e = 4 then ''+'' else int_to_string (int e)) = [if e = 4 then CHR ''+'' else digit_char e]"
    by (simp add: int_to_string_def nat_to_string_small [OF e10])
  show ?thesis
    unfolding x FormatPrice_def fl wi option.case Let_def f256 fi sdiv_smod_nat dv
      two_digits [OF ff] p8
    by (simp add: price_string_def int_to_string_def)
qed


lemma digit_char_literals:
  "digit_char 0 = CHR ''0''" "digit_char 1 = CHR ''1''" "digit_char 2 = CHR ''2''"
  "digit_char 3 = CHR ''3''" "digit_char 4 = CHR ''4''" "digit_char 5 = CHR ''5''"
  "digit_char 6 = CHR ''6''" "digit_char 7 = CHR ''7''"
  by code_simp+

lemma last_char_canonical:
  assumes "E \<in> set ''0123567+''"
  shows "E = CHR ''+'' \<or> is_digit E" and "eighths E < 8"
    and "(if eighths E = 4 then CHR ''+'' else digit_char (eighths E)) = E"
proof -
  have d1: "digit_char (Suc 0) = CHR ''1''"
    using digit_char_literals(2) by simp
  show "E = CHR ''+'' \<or> is_digit E"
    using assms by (auto simp: is_digit_def)
  show "eighths E < 8"
    using assms by (auto simp: eighths_def digit_val_def)
  show "(if eighths E = 4 then CHR ''+'' else digit_char (eighths E)) = E"
    using assms by (auto simp: eighths_def digit_val_def digit_char_literals d1)
qed

lemma last_char_of_eighth:
  assumes "e < 8"
  shows "(if e = 4 then CHR ''+'' else digit_char e) = CHR ''+'' \<or> is_digit (if e = 4 then CHR ''+'' else digit_char e)"
    and "eighths (if e = 4 then CHR ''+'' else digit_char e) = e"
proof -
  have e10: "e < 10" using assms by simp
  show "(if e = 4 then CHR ''+'' else digit_char e) = CHR ''+'' \<or> is_digit (if e = 4 then CHR ''+'' else digit_char e)"
    by (simp add: digit_char_props [OF e10])
  show "eighths (if e = 4 then CHR ''+'' else digit_char e) = e"
    by (simp add: eighths_def digit_char_props [OF e10])
qed

lemma split256: "(k::nat) = 256 * (k div 256) + 8 * ((k mod 256) div 8) + k mod 8"
proof -
  have "k mod 256 = 8 * ((k mod 256) div 8) + (k mod 256) mod 8"
    by simp
  moreover have "(k mod 256) mod 8 = k mod 8"
    by (simp add: mod_mod_cancel)
  moreover have "k = 256 * (k div 256) + k mod 256"
    by simp
  ultimately show ?thesis by linarith
qed

lemma bounds256:
  assumes "(k::nat) < 2 ^ 39"
  shows "k div 256 < 2 ^ 31" and "(k mod 256) div 8 < 32" and "k mod 8 < 8"
proof -
  have "(2::nat) ^ 39 = 2 ^ 31 * 256" by simp
  with assms have "k < 2 ^ 31 * 256" by simp
  then show "k div 256 < 2 ^ 31"
    by (simp only: less_mult_imp_div_less)
  have "k mod 256 < 256" by simp
  then have "k mod 256 < 32 * 8" by simp
  then show "(k mod 256) div 8 < 32"
    by (simp only: less_mult_imp_div_less)
  show "k mod 8 < 8" by simp
qed


lemma rat_split256:
  "(of_nat (256 * W + 8 * F + e) / 256 :: rat) = of_nat W + of_nat F / 32 + of_nat e / 256"
  by (simp add: add_divide_distrib)

text \<open>
  Claim C2, as stated, at the string \<open>100-004\<close>, which is well-formed in the sense of the
  claim (32nds \<open>00\<close>, last character the digit \<open>4\<close>): \<open>ParsePrice\<close> reads 100 + 4/256 and
  \<open>FormatPrice\<close> writes four 256ths as \<open>+\<close>, so the round trip yields \<open>100-00+\<close>.
\<close>

theorem price_round_trip_counterexample:
  "price_string 100 0 CHR ''4'' = ''100-004''
   \<and> Option.bind (ParsePrice ''100-004'') FormatPrice = Some ''100-00+''
   \<and> ''100-00+'' \<noteq> ''100-004''"
proof -
  have ps: "price_string 100 0 CHR ''4'' = ''100-004''" "price_string 100 0 CHR ''+'' = ''100-00+''"
    by code_simp+
  have e: "eighths CHR ''4'' = 4"
    by (simp add: eighths_def digit_val_def)
  have "ParsePrice (price_string 100 0 CHR ''4'')
      = Some (of_nat 100 + of_nat 0 / 32 + of_nat (eighths CHR ''4'') / 256)"
    by (rule ParsePrice_price_string) (simp_all add: is_digit_def)
  hence pp: "ParsePrice ''100-004'' = Some (of_nat 100 + of_nat 0 / 32 + of_nat 4 / 256)"
    unfolding ps e .
  have "FormatPrice (of_nat 100 + of_nat 0 / 32 + of_nat 4 / 256)
      = Some (price_string 100 0 (if (4 :: nat) = 4 then CHR ''+'' else digit_char 4))"
    by (rule FormatPrice_parts) simp_all
  hence fp: "FormatPrice (of_nat 100 + of_nat 0 / 32 + of_nat 4 / 256) = Some ''100-00+''"
    using ps(2) by simp
  have "Option.bind (ParsePrice ''100-004'') FormatPrice = Some ''100-00+''"
    unfolding pp Option.bind.simps by (rule fp)
  thus ?thesis
    using ps(1) by simp
qed

text \<open>
  Claim C2, amended. For every price \<open>k/256\<close> with \<open>k\<close> a natural number below \<open>2^39\<close>
  (integer part inside a 32-bit \<open>int\<close>), \<open>ParsePrice (FormatPrice x)\<close> is \<open>x\<close>. For every
  price string \<open>W-FFE\<close> with \<open>W\<close> the decimal numeral of a natural number below \<open>2^31\<close>,
  \<open>FF\<close> the two digits of a number below 32, and \<open>E\<close> one of the digits 0 to 3 and 5 to 7
  or \<open>+\<close>, \<open>FormatPrice (ParsePrice s)\<close> is \<open>s\<close>.
\<close>

theorem price_round_trip:
  "(k < 2 ^ 39 \<longrightarrow> Option.bind (FormatPrice (of_nat k / 256)) ParsePrice = Some (of_nat k / 256))
   \<and> (W < 2 ^ 31 \<and> FF < 32 \<and> E \<in> set ''0123567+'' \<longrightarrow>
        Option.bind (ParsePrice (price_string W FF E)) FormatPrice = Some (price_string W FF E))"
proof (intro conjI impI)
  assume k: "k < 2 ^ 39"
  define Wk where "Wk = k div 256"
  define Fk where "Fk = (k mod 256) div 8"
  define ek where "ek = k mod 8"
  have kk: "k = 256 * Wk + 8 * Fk + ek"
    unfolding Wk_def Fk_def ek_def by (rule split256)
  have b: "Wk < 2 ^ 31" "Fk < 32" "ek < 8"
    unfolding Wk_def Fk_def ek_def by (rule bounds256 [OF k])+
  have x: "(of_nat k / 256 :: rat) = of_nat Wk + of_nat Fk / 32 + of_nat ek / 256"
    unfolding kk by (rule rat_split256)
  have ff: "Fk < 100" using b(2) by simp
  have "Option.bind (FormatPrice (of_nat Wk + of_nat Fk / 32 + of_nat ek / 256)) ParsePrice
          = ParsePrice (price_string Wk Fk (if ek = 4 then CHR ''+'' else digit_char ek))"
    by (simp only: FormatPrice_parts [OF b] Option.bind.simps)
  also have "\<dots> = Some (of_nat Wk + of_nat Fk / 32 + of_nat ek / 256)"
    by (simp only: ParsePrice_price_string [OF b(1) ff last_char_of_eighth(1) [OF b(3)]]
        last_char_of_eighth(2) [OF b(3)])
  finally show "Option.bind (FormatPrice (of_nat k / 256)) ParsePrice = Some (of_nat k / 256)"
    by (simp only: x)
next
  assume a: "W < 2 ^ 31 \<and> FF < 32 \<and> E \<in> set ''0123567+''"
  then have w: "W < 2 ^ 31" and f: "FF < 32" and e: "E \<in> set ''0123567+''" by simp_all
  have ff: "FF < 100" using f by simp
  note L = last_char_canonical [OF e]
  have "Option.bind (ParsePrice (price_string W FF E)) FormatPrice
          = FormatPrice (of_nat W + of_nat FF / 32 + of_nat (eighths E) / 256)"
    by (simp only: ParsePrice_price_string [OF w ff L(1)] Option.bind.simps)
  also have "\<dots> = Some (price_string W FF E)"
    by (simp only: FormatPrice_parts [OF w f L(2)] L(3))
  finally show "Option.bind (ParsePrice (price_string W FF E)) FormatPrice = Some (price_string W FF E)" .
qed

theorem price_round_trip_witness:
  "(25804 :: nat) < 2 ^ 39
   \<and> FormatPrice (25804 / 256) = Some ''100-25+''
   \<and> Option.bind (FormatPrice (25804 / 256)) ParsePrice = Some (25804 / 256)
   \<and> (100 :: nat) < 2 ^ 31 \<and> (25 :: nat) < 32 \<and> CHR ''+'' \<in> set ''0123567+''
   \<and> price_string 100 25 CHR ''+'' = ''100-25+''
   \<and> ParsePrice ''100-25+'' = Some (25804 / 256)
   \<and> Option.bind (ParsePrice ''100-25+'') FormatPrice = Some ''100-25+''"
proof -
  have h1: "(25804 :: nat) < 2 ^ 39" by simp
  have h2: "(100 :: nat) < 2 ^ 31 \<and> (25 :: nat) < 32 \<and> CHR ''+'' \<in> set ''0123567+''" by simp
  have ps: "price_string 100 25 CHR ''+'' = ''100-25+''"
    by code_simp
  have x: "(of_nat 100 + of_nat 25 / 32 + of_nat 4 / 256 :: rat) = 25804 / 256"
    by simp
  have "FormatPrice (of_nat 100 + of_nat 25 / 32 + of_nat 4 / 256)
      = Some (price_string 100 25 (if (4 :: nat) = 4 then CHR ''+'' else digit_char 4))"
    by (rule FormatPrice_parts) simp_all
  hence v1: "FormatPrice (25804 / 256) = Some ''100-25+''"
    unfolding x using ps by simp
  have "ParsePrice (price_string 100 25 CHR ''+'')
      = Some (of_nat 100 + of_nat 25 / 32 + of_nat (eighths CHR ''+'') / 256)"
    by (rule ParsePrice_price_string) simp_all
  moreover have "eighths CHR ''+'' = 4"
    by (simp add: eighths_def)
  ultimately have v3: "ParsePrice ''100-25+'' = Some (25804 / 256)"
    unfolding ps using x by simp
  note v = v1 ps v3
  from price_round_trip [of 25804 100 25 "CHR ''+''"] h1 h2 v
  show ?thesis
    by simp
qed

end
